theory Spec2Isabelle
  imports Main "HOL-Library.Sublist"
begin

section \<open>C strings and the limits of csapp.h\<close>

text \<open>
  The functions of \<open>proxy.c\<close> are modelled one by one. A C string is modelled by its
  content, a \<^typ>\<open>string\<close>; the end of the list stands for the terminating NUL byte.
  A pointer into a string is an index into the list, and dereferencing it yields
  \<open>None\<close> at the terminator. The strings that the parser hands out and those that
  \<open>snprintf\<close> builds are C strings in this sense. The buffer that
  \<open>rio_readlineb\<close> fills is different: it holds the bytes of a line as they came
  from the client, a NUL byte among them if the client sent one, and the C functions
  that read it stop at the first.

  The macros \<open>MAXLINE\<close> and \<open>MAXBUF\<close> come from \<open>csapp.h\<close>, which is not among the
  sources: they are parameters, and every function that uses one of them takes it as an
  argument.
\<close>

definition deref :: "string \<Rightarrow> nat \<Rightarrow> char option" where
  "deref s i = (if i < length s then Some (s ! i) else None)"

definition HTTP_PREFIX_LEN :: nat where
  "HTTP_PREFIX_LEN = 7"

section \<open>processUri\<close>

text \<open>
  The first loop of \<open>processUri\<close>:
  \<^verbatim>\<open>while (*end && *end!=':' && *end!='/' && *end!=' ') end++;\<close>
\<close>

function scan_host :: "string \<Rightarrow> nat \<Rightarrow> nat" where
  "scan_host uri e =
     (if e < length uri \<and> uri ! e \<noteq> CHR '':'' \<and> uri ! e \<noteq> CHR ''/'' \<and> uri ! e \<noteq> CHR '' ''
      then scan_host uri (e + 1) else e)"
  by pat_completeness auto
termination
  by (relation "measure (\<lambda>(uri, e). length uri - e)") auto

text \<open>
  The second loop, entered with \<open>end\<close> still on the colon:
  \<^verbatim>\<open>while (*end && *end != '/' && *end != ' ') end++;\<close>
\<close>

function scan_port :: "string \<Rightarrow> nat \<Rightarrow> nat" where
  "scan_port uri e =
     (if e < length uri \<and> uri ! e \<noteq> CHR ''/'' \<and> uri ! e \<noteq> CHR '' ''
      then scan_port uri (e + 1) else e)"
  by pat_completeness auto
termination
  by (relation "measure (\<lambda>(uri, e). length uri - e)") auto

text \<open>
  \<open>strncpy(dst, src, n)\<close> copies at most \<open>n\<close> characters of the string at \<open>src\<close> and
  pads with NUL bytes; followed by \<open>dst[n] = '\0'\<close> the destination holds the first
  \<open>n\<close> characters of the source.
\<close>

definition strncpy :: "string \<Rightarrow> nat \<Rightarrow> string" where
  "strncpy src n = take n src"

text \<open>
  \<open>processUri(uri, path, host, port)\<close>. The result is the content of the three output
  buffers in parameter order, \<open>(path, host, port)\<close>; \<open>Some\<close> stands for the return
  value 0, the only one the function has. The caller's buffers are \<open>char[MAXLINE]\<close>.
  \<open>None\<close> marks the inputs on which the C function has no defined result:
  a \<open>uri\<close> shorter than the skipped prefix (the scan starts past the terminator), a
  host or port that does not fit its buffer, and a path of \<open>MAXLINE\<close> or more
  characters, which \<open>strncpy(path, end, MAXLINE)\<close> leaves without a terminator.
\<close>

definition processUri :: "nat \<Rightarrow> string \<Rightarrow> (string \<times> string \<times> string) option" where
  "processUri MAXLINE uri =
     (if length uri < HTTP_PREFIX_LEN then None
      else
        let start = HTTP_PREFIX_LEN;
            end1 = scan_host uri start;
            host = strncpy (drop start uri) (end1 - start);
            (end2, port) =
              (if deref uri end1 = Some (CHR '':'')
               then let temp = end1 + 1;
                        e = scan_port uri end1
                    in (e, strncpy (drop temp uri) (e - temp))
               else (end1, ''80''));
            path = (if deref uri end2 = Some (CHR ''/'')
                    then strncpy (drop end2 uri) MAXLINE else [])
        in if length host < MAXLINE \<and> length port < MAXLINE \<and> length path < MAXLINE
           then Some (path, host, port) else None)"

section \<open>The environment of one connection\<close>

text \<open>
  The handler talks to two sockets: the client connection \<open>fd\<close> and the origin
  connection \<open>serverFd\<close>. The RIO routines and \<open>open_clientfd\<close> of \<open>csapp\<close> and the
  request-line parser of \<open>http_parser.h\<close> are not among the sources. They are the
  environment of the handler; a \<open>world\<close> holds what the environment is going to do:
  \<^item> \<open>client_lines\<close>: what the successive calls \<open>rio_readlineb(&client, buf, MAXLINE)\<close>
    yield, each as the return value and the bytes left in \<open>buf\<close> (those before the
    NUL byte that \<open>rio_readlineb\<close> appends);
  \<^item> \<open>server_bytes\<close>: the bytes the origin sends before it closes, and
    \<open>server_fatal\<close>: whether the read after the last byte fails instead of
    returning 0;
  \<^item> \<open>write_ok\<close>: for each socket the outcomes of the successive \<open>rio_writen\<close> calls,
    \<open>True\<close> for the full count and \<open>False\<close> for -1;
  \<^item> \<open>connects\<close>: whether \<open>open_clientfd(host, port)\<close> yields a descriptor;
  \<^item> \<open>parser\<close>: the state \<open>parser_parse_line\<close> returns for a line, and what
    \<open>parser_retrieve\<close> then yields for each field (\<open>None\<close> for a negative return).
  The \<open>trace\<close> records, in order, every effect of the handler.
\<close>

datatype sock = Client | Server

text \<open>
  Modelled from the spec: the states and fields of \<open>http_parser.h\<close>, of which the
  handler uses the state \<open>REQUEST\<close> (every other state is \<open>NOT_REQUEST\<close> here) and the
  three fields of a request line, "method/URI/version strings from one line of text".
\<close>

datatype parser_state = REQUEST | NOT_REQUEST

datatype parser_field = METHOD | URI | HTTP_VERSION

datatype event =
    Parser_new
  | Parser_free
  | Open_clientfd string string bool
  | Rio_writen sock string bool
  | Close sock
  | Undefined_behaviour

record world =
  client_lines :: "(int \<times> string) list"
  server_bytes :: string
  server_fatal :: bool
  write_ok :: "sock \<Rightarrow> bool list"
  connects :: "string \<Rightarrow> string \<Rightarrow> bool"
  parser :: "string \<Rightarrow> parser_state \<times> (parser_field \<Rightarrow> string option)"
  trace :: "event list"

definition emit :: "event \<Rightarrow> world \<Rightarrow> world" where
  "emit e w = w\<lparr>trace := trace w @ [e]\<rparr>"

text \<open>
  Modelled from the spec: \<open>parser_new\<close> and \<open>parser_free\<close> of \<open>http_parser.h\<close> and
  \<open>close\<close>, of which only the call is recorded.
\<close>

definition parser_new :: "world \<Rightarrow> world" where
  "parser_new w = emit Parser_new w"

definition parser_free :: "world \<Rightarrow> world" where
  "parser_free w = emit Parser_free w"

definition close :: "sock \<Rightarrow> world \<Rightarrow> world" where
  "close fd w = emit (Close fd) w"

text \<open>
  Modelled from the spec: \<open>rio_readlineb\<close> of the RIO package, a blocking read that
  returns a byte count or a fatal error. The call yields the next entry of
  \<open>client_lines\<close>; when there is none it returns 0, the end of the input, and leaves
  \<open>buf\<close> as it is.
\<close>

definition rio_readlineb :: "string \<Rightarrow> world \<Rightarrow> (int \<times> string) \<times> world" where
  "rio_readlineb buf w =
     (case client_lines w of
        [] \<Rightarrow> ((0, buf), w)
      | r # rs \<Rightarrow> (r, w\<lparr>client_lines := rs\<rparr>))"

text \<open>
  Modelled from the spec: \<open>rio_writen\<close> of the RIO package, a blocking write that
  returns the byte count or a fatal error. The result is \<open>True\<close> for the full count;
  the outcome is the next entry of \<open>write_ok\<close> for the socket, and success when there
  is none.
\<close>

definition rio_writen :: "sock \<Rightarrow> string \<Rightarrow> world \<Rightarrow> bool \<times> world" where
  "rio_writen fd bytes w =
     (case write_ok w fd of
        [] \<Rightarrow> (True, emit (Rio_writen fd bytes True) w)
      | ok # oks \<Rightarrow>
          (ok, emit (Rio_writen fd bytes ok) (w\<lparr>write_ok := (write_ok w)(fd := oks)\<rparr>)))"

text \<open>
  Modelled from the spec: \<open>open_clientfd\<close>, which opens a TCP connection to (host, port)
  or fails; the result is \<open>True\<close> for a descriptor.
\<close>

definition open_clientfd :: "string \<Rightarrow> string \<Rightarrow> world \<Rightarrow> bool \<times> world" where
  "open_clientfd host port w =
     (connects w host port, emit (Open_clientfd host port (connects w host port)) w)"

text \<open>
  Modelled from the spec: \<open>rio_readnb\<close> of the RIO package, which reads a chunk of bytes
  bounded by \<open>n\<close>, returns zero bytes when the origin has closed, or fails with a
  fatal error.
\<close>

datatype readnb = Bytes string | Fatal

definition rio_readnb :: "nat \<Rightarrow> world \<Rightarrow> readnb \<times> world" where
  "rio_readnb n w =
     (if server_bytes w = [] \<and> server_fatal w then (Fatal, w)
      else (Bytes (take n (server_bytes w)), w\<lparr>server_bytes := drop n (server_bytes w)\<rparr>))"

section \<open>Formatting\<close>

definition CRLF :: string where
  "CRLF = [CHR 0x0D, CHR 0x0A]"

definition DQUOTE :: string where
  "DQUOTE = [CHR 0x22]"

text \<open>
  \<open>snprintf(buf, n, ...)\<close> stores at most \<open>n - 1\<close> characters of the formatted
  text and returns the length of the whole text. The argument is the formatted text; the
  result is the string left in the buffer and the return value. (A size of 0, for which
  C stores nothing, does not occur: every size is the length of an array.)
\<close>

definition snprintf :: "nat \<Rightarrow> string \<Rightarrow> string \<times> nat" where
  "snprintf n s = (take (n - 1) s, length s)"

text \<open>The conversion \<open>%zu\<close>: a number in decimal, digit by digit.\<close>

definition digit :: "nat \<Rightarrow> char" where
  "digit d = ''0123456789'' ! d"

fun zu :: "nat \<Rightarrow> string" where
  "zu n = (if n < 10 then [digit n] else zu (n div 10) @ [digit (n mod 10)])"

text \<open>
  The C string that a buffer of bytes holds ends before the first NUL byte of the
  buffer. \<open>strlen\<close> is its length; \<open>strcmp(s1, s2) == 0\<close> and
  \<open>strncmp(s1, s2, n) == 0\<close> compare the C strings of two buffers, the second
  their first \<open>n\<close> characters only.
\<close>

definition NUL :: char where
  "NUL = CHR 0x00"

definition c_str :: "string \<Rightarrow> string" where
  "c_str buf = takeWhile (\<lambda>c. c \<noteq> NUL) buf"

definition strlen :: "string \<Rightarrow> nat" where
  "strlen buf = length (c_str buf)"

definition strcmp_eq :: "string \<Rightarrow> string \<Rightarrow> bool" where
  "strcmp_eq s1 s2 = (c_str s1 = c_str s2)"

definition strncmp_eq :: "string \<Rightarrow> string \<Rightarrow> nat \<Rightarrow> bool" where
  "strncmp_eq s1 s2 n = (take n (c_str s1) = take n (c_str s2))"

definition HOST_HEADER_LEN :: nat where
  "HOST_HEADER_LEN = 5"

definition CONN_HEADER_LEN :: nat where
  "CONN_HEADER_LEN = 11"

definition USER_AGENT_HEADER_LEN :: nat where
  "USER_AGENT_HEADER_LEN = 11"

definition PROXY_CONN_HEADER_LEN :: nat where
  "PROXY_CONN_HEADER_LEN = 17"

definition header_user_agent :: string where
  "header_user_agent =
     ''User-Agent: Mozilla/5.0'' @ '' (X11; Linux x86_64; rv:3.10.0)'' @
     '' Gecko/20240719 Firefox/63.0.1'' @ CRLF"

section \<open>cleanUp and clienterror\<close>

definition cleanUp :: "world \<Rightarrow> world" where
  "cleanUp w = parser_free (close Server w)"

definition error_body :: "string \<Rightarrow> string \<Rightarrow> string \<Rightarrow> string" where
  "error_body errnum shortmsg longmsg =
     ''<!DOCTYPE html>'' @ CRLF @
     ''<html>'' @ CRLF @
     ''<head><title>Tiny Error</title></head>'' @ CRLF @
     ''<body bgcolor='' @ DQUOTE @ ''ffffff'' @ DQUOTE @ ''>'' @ CRLF @
     ''<h1>'' @ errnum @ '': '' @ shortmsg @ ''</h1>'' @ CRLF @
     ''<p>'' @ longmsg @ ''</p>'' @ CRLF @
     ''<hr /><em>The Tiny Web server</em>'' @ CRLF @
     ''</body></html>'' @ CRLF"

definition error_headers :: "string \<Rightarrow> string \<Rightarrow> nat \<Rightarrow> string" where
  "error_headers errnum shortmsg bodylen =
     ''HTTP/1.0 '' @ errnum @ '' '' @ shortmsg @ CRLF @
     ''Content-Type: text/html'' @ CRLF @
     ''Content-Length: '' @ zu bodylen @ CRLF @ CRLF"

text \<open>
  \<open>clienterror(fd, errnum, shortmsg, longmsg)\<close>; the messages to \<open>stderr\<close> are left out.
\<close>

definition clienterror ::
  "nat \<Rightarrow> nat \<Rightarrow> sock \<Rightarrow> string \<Rightarrow> string \<Rightarrow> string \<Rightarrow> world \<Rightarrow> world" where
  "clienterror MAXLINE MAXBUF fd errnum shortmsg longmsg w =
     (let (body, bodylen) = snprintf MAXBUF (error_body errnum shortmsg longmsg)
      in if bodylen \<ge> MAXBUF then w
         else
           let (buf, buflen) = snprintf MAXLINE (error_headers errnum shortmsg bodylen)
           in if buflen \<ge> MAXLINE then w
              else
                case rio_writen fd (take buflen buf) w of
                  (ok, w1) \<Rightarrow>
                    if \<not> ok then w1
                    else snd (rio_writen fd (take bodylen body) w1))"

section \<open>readLine\<close>

text \<open>
  \<open>readLine(buf, temp, client, server)\<close>: the result is the returned flag and the
  world after the call. The line is tested with \<open>strcmp\<close> and \<open>strncmp\<close>, and
  \<open>rio_writen(server, buf, strlen(buf))\<close> writes the first \<open>strlen(buf)\<close> bytes
  of the buffer.
\<close>

function readLine :: "string \<Rightarrow> int \<Rightarrow> world \<Rightarrow> bool \<times> world" where
  "readLine buf temp w =
     (if temp > 0 then
        if strcmp_eq buf CRLF then (True, w)
        else
          let skipped =
                (strncmp_eq buf ''Host:'' HOST_HEADER_LEN \<or>
                 strncmp_eq buf ''Connection:'' CONN_HEADER_LEN \<or>
                 strncmp_eq buf ''User-Agent:'' USER_AGENT_HEADER_LEN \<or>
                 strncmp_eq buf ''Proxy-Connection:'' PROXY_CONN_HEADER_LEN)
          in if \<not> skipped then
               case rio_writen Server (take (strlen buf) buf) w of
                 (ok, w1) \<Rightarrow>
                   if \<not> ok then (False, close Server w1)
                   else (case rio_readlineb buf w1 of
                           ((temp', buf'), w2) \<Rightarrow> readLine buf' temp' w2)
             else (case rio_readlineb buf w of
                     ((temp', buf'), w2) \<Rightarrow> readLine buf' temp' w2)
      else (True, w))"
  by pat_completeness auto
termination
  by (relation "measure (\<lambda>(buf, temp, w). 2 * length (client_lines w) + (if temp > 0 then 1 else 0))")
     (auto simp: rio_readlineb_def rio_writen_def emit_def split: list.splits)

section \<open>request\<close>

text \<open>
  The loop at the end of \<open>request\<close>:
  \<^verbatim>\<open>while (stillRun && (tempAgain=rio_readnb(&server, buf, MAXLINE))>0)
    if (rio_writen(fd, buf, tempAgain)!=tempAgain) stillRun=false;\<close>
  \<open>tempAgain\<close> is a \<open>size_t\<close>: a failed read (-1) becomes the largest count, the
  test \<open>> 0\<close> passes and \<open>rio_writen\<close> is asked to write that many bytes out of the
  \<open>MAXLINE\<close> bytes of \<open>buf\<close>. The model stops there with \<open>Undefined_behaviour\<close>;
  the flag returned is \<open>False\<close> in that case only.
\<close>

function response_loop :: "nat \<Rightarrow> world \<Rightarrow> bool \<times> world" where
  "response_loop MAXLINE w =
     (case rio_readnb MAXLINE w of
        (Fatal, w1) \<Rightarrow> (False, emit Undefined_behaviour w1)
      | (Bytes chunk, w1) \<Rightarrow>
          if length chunk > 0 then
            case rio_writen Client chunk w1 of
              (ok, w2) \<Rightarrow> if ok then response_loop MAXLINE w2 else (True, w2)
          else (True, w1))"
  by pat_completeness auto
termination
  by (relation "measure (\<lambda>(MAXLINE, w). length (server_bytes w))")
     (auto simp: rio_readnb_def rio_writen_def emit_def split: list.splits if_splits)

text \<open>
  \<open>request(fd)\<close>. The first buffer is uninitialised; the model starts it empty, and
  nothing reads it before the first \<open>rio_readlineb\<close> has filled it.
\<close>

definition request :: "nat \<Rightarrow> nat \<Rightarrow> world \<Rightarrow> world" where
  "request MAXLINE MAXBUF w0 =
     (let w1 = parser_new w0
      in case rio_readlineb [] w1 of
        ((n, buf), w2) \<Rightarrow>
          if n = 0 then parser_free w2
          else
            case parser w2 buf of
              (state, field) \<Rightarrow>
                if state \<noteq> REQUEST then parser_free w2
                else
                  case (field METHOD, field URI, field HTTP_VERSION) of
                    (Some method, Some uri, Some vers) \<Rightarrow>
                      if method \<noteq> ''GET'' then
                        parser_free
                          (clienterror MAXLINE MAXBUF Client ''501'' ''Not Implemented''
                             ''Tiny does not implement this method'' w2)
                      else
                        (case processUri MAXLINE uri of
                           None \<Rightarrow> emit Undefined_behaviour w2
                         | Some (path, host, port) \<Rightarrow>
                             case open_clientfd host port w2 of
                               (connected, w3) \<Rightarrow>
                                 if \<not> connected then parser_free w3
                                 else
                                   let (req, reqlen) =
                                         snprintf MAXLINE (''GET '' @ path @ '' HTTP/1.0'' @ CRLF)
                                   in case rio_writen Server req w3 of
                                     (ok, w4) \<Rightarrow>
                                       if reqlen \<ge> MAXLINE \<or> \<not> ok then cleanUp w4
                                       else
                                         let (hostline, hostlen) =
                                               snprintf MAXLINE
                                                 (''Host: '' @ host @ '':'' @ port @ CRLF)
                                         in if hostlen \<ge> MAXLINE then cleanUp w4
                                            else
                                              case rio_writen Server hostline w4 of
                                                (ok1, w5) \<Rightarrow>
                                              if \<not> ok1 then cleanUp w5
                                              else
                                              case rio_writen Server header_user_agent w5 of
                                                (ok2, w6) \<Rightarrow>
                                              if \<not> ok2 then cleanUp w6
                                              else
                                              case rio_writen Server (''Connection: close'' @ CRLF) w6 of
                                                (ok3, w7) \<Rightarrow>
                                              if \<not> ok3 then cleanUp w7
                                              else
                                              case rio_writen Server (''Proxy-Connection: close'' @ CRLF) w7 of
                                                (ok4, w8) \<Rightarrow>
                                              if \<not> ok4 then cleanUp w8
                                              else
                                              case rio_readlineb hostline w8 of
                                                ((temp, line), w9) \<Rightarrow>
                                              case readLine line temp w9 of
                                                (sent, w10) \<Rightarrow>
                                              if \<not> sent then parser_free w10
                                              else
                                              case rio_writen Server CRLF w10 of
                                                (ok5, w11) \<Rightarrow>
                                              if \<not> ok5 then cleanUp w11
                                              else
                                              case response_loop MAXLINE w11 of
                                                (returned, w12) \<Rightarrow>
                                              if returned then cleanUp w12 else w12)
                  | _ \<Rightarrow> parser_free w2)"


text \<open>
  Two parts of \<open>request\<close> as functions of their own: \<open>forward\<close> is what runs once
  \<open>open_clientfd\<close> has succeeded, from the request line to the end of the function, and
  \<open>respond\<close> is its end, from the first \<open>rio_readlineb\<close> for a header line onwards;
  \<open>buf\<close> still holds the \<open>Host\<close> line then. The lemma \<open>request_forward\<close> below
  shows that \<open>request\<close> is made of them.
\<close>

definition respond :: "nat \<Rightarrow> string \<Rightarrow> world \<Rightarrow> world" where
  "respond MAXLINE hostline w8 =
     (case rio_readlineb hostline w8 of
        ((temp, line), w9) \<Rightarrow>
     case readLine line temp w9 of
       (sent, w10) \<Rightarrow>
     if \<not> sent then parser_free w10
     else
     case rio_writen Server CRLF w10 of
       (ok5, w11) \<Rightarrow>
     if \<not> ok5 then cleanUp w11
     else
     case response_loop MAXLINE w11 of
       (returned, w12) \<Rightarrow>
     if returned then cleanUp w12 else w12)"

definition forward :: "nat \<Rightarrow> string \<Rightarrow> string \<Rightarrow> string \<Rightarrow> world \<Rightarrow> world" where
  "forward MAXLINE path host port w3 =
     (let (req, reqlen) =
            snprintf MAXLINE (''GET '' @ path @ '' HTTP/1.0'' @ CRLF)
      in case rio_writen Server req w3 of
        (ok, w4) \<Rightarrow>
          if reqlen \<ge> MAXLINE \<or> \<not> ok then cleanUp w4
          else
            let (hostline, hostlen) =
                  snprintf MAXLINE
                    (''Host: '' @ host @ '':'' @ port @ CRLF)
            in if hostlen \<ge> MAXLINE then cleanUp w4
               else
                 case rio_writen Server hostline w4 of
                   (ok1, w5) \<Rightarrow>
                 if \<not> ok1 then cleanUp w5
                 else
                 case rio_writen Server header_user_agent w5 of
                   (ok2, w6) \<Rightarrow>
                 if \<not> ok2 then cleanUp w6
                 else
                 case rio_writen Server (''Connection: close'' @ CRLF) w6 of
                   (ok3, w7) \<Rightarrow>
                 if \<not> ok3 then cleanUp w7
                 else
                 case rio_writen Server (''Proxy-Connection: close'' @ CRLF) w7 of
                   (ok4, w8) \<Rightarrow>
                 if \<not> ok4 then cleanUp w8
                 else respond MAXLINE hostline w8)"

section \<open>What is observed of a run\<close>

text \<open>
  The events a computation adds to the trace, from the world before and the world after;
  those of one call of \<open>request\<close>, and those of the loop at its end.
\<close>

definition new_events :: "world \<Rightarrow> world \<Rightarrow> event list" where
  "new_events w w' = drop (length (trace w)) (trace w')"

definition events :: "nat \<Rightarrow> nat \<Rightarrow> world \<Rightarrow> event list" where
  "events MAXLINE MAXBUF w = new_events w (request MAXLINE MAXBUF w)"

definition loop_events :: "nat \<Rightarrow> world \<Rightarrow> event list" where
  "loop_events MAXLINE w = new_events w (snd (response_loop MAXLINE w))"

text \<open>
  The strings passed to \<open>rio_writen\<close> on a socket, in order, and the bytes of the
  calls that succeeded.
\<close>

fun writes :: "sock \<Rightarrow> event list \<Rightarrow> string list" where
  "writes fd [] = []"
| "writes fd (Rio_writen fd' s ok # es) = (if fd' = fd then s # writes fd es else writes fd es)"
| "writes fd (e # es) = writes fd es"

fun delivered :: "sock \<Rightarrow> event list \<Rightarrow> string" where
  "delivered fd [] = []"
| "delivered fd (Rio_writen fd' s ok # es) =
     (if fd' = fd \<and> ok then s @ delivered fd es else delivered fd es)"
| "delivered fd (e # es) = delivered fd es"

text \<open>The outcome of the next \<open>rio_writen\<close> on a socket.\<close>

definition next_ok :: "world \<Rightarrow> sock \<Rightarrow> bool" where
  "next_ok w fd = (case write_ok w fd of [] \<Rightarrow> True | ok # _ \<Rightarrow> ok)"

text \<open>The effects that touch the origin.\<close>

fun origin_event :: "event \<Rightarrow> bool" where
  "origin_event (Open_clientfd host port ok) = True"
| "origin_event (Rio_writen fd s ok) = (fd = Server)"
| "origin_event (Close fd) = (fd = Server)"
| "origin_event e = False"

text \<open>
  The origin socket is closed and the parser freed, each once, as the last two effects.
\<close>

definition released :: "event list \<Rightarrow> bool" where
  "released evs =
     (count_list evs (Close Server) = 1 \<and> count_list evs Parser_free = 1 \<and>
      take 2 (rev evs) = [Parser_free, Close Server])"

text \<open>
  The Request Line of a connection: method, URI and version, when the first read yields
  something and the parser accepts it as a request line with all three fields.
\<close>

definition request_line :: "world \<Rightarrow> (string \<times> string \<times> string) option" where
  "request_line w =
     (case client_lines w of
        [] \<Rightarrow> None
      | (n, line) # rest \<Rightarrow>
          if n = 0 \<or> fst (parser w line) \<noteq> REQUEST then None
          else case (snd (parser w line) METHOD, snd (parser w line) URI,
                     snd (parser w line) HTTP_VERSION) of
                 (Some method, Some uri, Some vers) \<Rightarrow> Some (method, uri, vers)
               | _ \<Rightarrow> None)"

section \<open>The specification's wording\<close>

text \<open>
  URI Decomposer: after the prefix, \<open>host\<close> runs up to the first \<open>:\<close>, \<open>/\<close>, space or
  the end; after a \<open>:\<close> the port runs up to \<open>/\<close>, space or the end, and is \<open>80\<close>
  otherwise; the path is the remaining suffix when that starts with \<open>/\<close>, and empty
  otherwise.
\<close>

definition host_char :: "char \<Rightarrow> bool" where
  "host_char c = (c \<noteq> CHR '':'' \<and> c \<noteq> CHR ''/'' \<and> c \<noteq> CHR '' '')"

definition port_char :: "char \<Rightarrow> bool" where
  "port_char c = (c \<noteq> CHR ''/'' \<and> c \<noteq> CHR '' '')"

definition decompose_spec :: "string \<Rightarrow> string \<times> string \<times> string" where
  "decompose_spec rest =
     (let host = takeWhile host_char rest;
          after_host = dropWhile host_char rest;
          (port, after_port) =
            (case after_host of
               c # cs \<Rightarrow> if c = CHR '':'' then (takeWhile port_char cs, dropWhile port_char cs)
                         else (''80'', after_host)
             | [] \<Rightarrow> (''80'', []));
          path = (case after_port of
                    c # cs \<Rightarrow> if c = CHR ''/'' then after_port else []
                  | [] \<Rightarrow> [])
      in (path, host, port))"

text \<open>
  Header Relay: the header lines are the lines read up to the bare terminator or the end
  of input; a line is blacklisted when one of the four names is a prefix of it; every
  other header line is forwarded byte for byte, its CRLF included.
\<close>

definition blacklist :: "string list" where
  "blacklist = [''Host:'', ''Connection:'', ''User-Agent:'', ''Proxy-Connection:'']"

definition blacklisted :: "string \<Rightarrow> bool" where
  "blacklisted line = list_ex (\<lambda>name. prefix name line) blacklist"

definition forwarded_spec :: "(int \<times> string) list \<Rightarrow> string list" where
  "forwarded_spec reads =
     filter (\<lambda>line. \<not> blacklisted line)
       (map snd (takeWhile (\<lambda>(n, line). 0 < n \<and> line \<noteq> CRLF) reads))"

text \<open>
  The same with every line taken as the C string it holds: the terminator is a line
  whose C string is the bare CRLF, and what is forwarded of a line is its C string, the
  bytes before its first NUL byte.
\<close>

definition header_lines :: "(int \<times> string) list \<Rightarrow> string list" where
  "header_lines reads =
     map snd (takeWhile (\<lambda>(n, line). 0 < n \<and> c_str line \<noteq> CRLF) reads)"

definition forwarded :: "(int \<times> string) list \<Rightarrow> string list" where
  "forwarded reads = map c_str (filter (\<lambda>line. \<not> blacklisted line) (header_lines reads))"

text \<open>
  Failure: a write to the origin that fails ends the relay; the socket is closed at once.
  For the lines to forward and the outcomes of the coming writes, \<open>relay_events\<close> are
  the effects, \<open>relay_ok\<close> tells whether every write went through, and \<open>relay_left\<close>
  are the outcomes not yet used.
\<close>

fun relay_events :: "string list \<Rightarrow> bool list \<Rightarrow> event list" where
  "relay_events [] oks = []"
| "relay_events (l # ls) [] = Rio_writen Server l True # relay_events ls []"
| "relay_events (l # ls) (ok # oks) =
     (if ok then Rio_writen Server l True # relay_events ls oks
      else [Rio_writen Server l False, Close Server])"

fun relay_ok :: "string list \<Rightarrow> bool list \<Rightarrow> bool" where
  "relay_ok [] oks = True"
| "relay_ok (l # ls) [] = True"
| "relay_ok (l # ls) (ok # oks) = (ok \<and> relay_ok ls oks)"

fun relay_left :: "string list \<Rightarrow> bool list \<Rightarrow> bool list" where
  "relay_left [] oks = oks"
| "relay_left (l # ls) [] = []"
| "relay_left (l # ls) (ok # oks) = (if ok then relay_left ls oks else oks)"

text \<open>The injected headers, in the order the specification gives them.\<close>

definition injected :: "string \<Rightarrow> string \<Rightarrow> string list" where
  "injected host port =
     [''Host: '' @ host @ '':'' @ port @ CRLF,
      header_user_agent,
      ''Connection: close'' @ CRLF,
      ''Proxy-Connection: close'' @ CRLF]"

text \<open>
  What the specification has the origin receive: the request line, the client's header
  lines that pass the filter, then the injected headers, then the blank line; and the
  request line with \<open>/\<close> in place of an empty path.
\<close>

definition request_line_spec :: "string \<Rightarrow> string" where
  "request_line_spec path = ''GET '' @ (if path = [] then ''/'' else path) @ '' HTTP/1.0'' @ CRLF"

definition origin_request_spec ::
  "string \<Rightarrow> string \<Rightarrow> string \<Rightarrow> (int \<times> string) list \<Rightarrow> string list" where
  "origin_request_spec path host port reads =
     [request_line_spec path] @ forwarded_spec reads @ injected host port @ [CRLF]"

text \<open>The 501 response of the specification.\<close>

definition response_501_head :: string where
  "response_501_head =
     ''HTTP/1.0 501 Not Implemented'' @ CRLF @
     ''Content-Type: text/html'' @ CRLF @
     ''Content-Length: 217'' @ CRLF @ CRLF"

definition response_501_body :: string where
  "response_501_body =
     ''<!DOCTYPE html>'' @ CRLF @
     ''<html>'' @ CRLF @
     ''<head><title>Tiny Error</title></head>'' @ CRLF @
     ''<body bgcolor='' @ DQUOTE @ ''ffffff'' @ DQUOTE @ ''>'' @ CRLF @
     ''<h1>501: Not Implemented</h1>'' @ CRLF @
     ''<p>Tiny does not implement this method</p>'' @ CRLF @
     ''<hr /><em>The Tiny Web server</em>'' @ CRLF @
     ''</body></html>'' @ CRLF"

section \<open>Concrete connections\<close>

definition fixed_parser ::
  "string \<Rightarrow> string \<Rightarrow> string \<Rightarrow> string \<Rightarrow> parser_state \<times> (parser_field \<Rightarrow> string option)" where
  "fixed_parser method uri vers line =
     (REQUEST, \<lambda>f. case f of METHOD \<Rightarrow> Some method | URI \<Rightarrow> Some uri | HTTP_VERSION \<Rightarrow> Some vers)"

definition example_world :: "string \<Rightarrow> string \<Rightarrow> world" where
  "example_world method uri =
     \<lparr>client_lines =
        [(int (length (method @ '' '' @ uri @ '' HTTP/1.1'' @ CRLF)),
          method @ '' '' @ uri @ '' HTTP/1.1'' @ CRLF),
         (19, ''Host: example.com'' @ CRLF),
         (13, ''Accept: */*'' @ CRLF),
         (2, CRLF)],
      server_bytes = ''HTTP/1.0 200 OK'' @ CRLF @ CRLF @ ''hello'',
      server_fatal = False,
      write_ok = (\<lambda>fd. []),
      connects = (\<lambda>host port. True),
      parser = fixed_parser method uri ''HTTP/1.1'',
      trace = []\<rparr>"

declare scan_host.simps [simp del] scan_port.simps [simp del] zu.simps [simp del]
declare readLine.simps [simp del] response_loop.simps [simp del]

section \<open>The URI Decomposer\<close>

lemma scan_host_takeWhile:
  "e \<le> length uri \<Longrightarrow> scan_host uri e = e + length (takeWhile host_char (drop e uri))"
proof (induction uri e rule: scan_host.induct)
  case (1 uri e)
  show ?case
  proof (cases "e < length uri")
    case True
    then have d: "drop e uri = uri ! e # drop (Suc e) uri"
      by (simp add: Cons_nth_drop_Suc)
    show ?thesis
    proof (cases "host_char (uri ! e)")
      case True
      then have g: "e < length uri \<and> uri ! e \<noteq> CHR '':'' \<and> uri ! e \<noteq> CHR ''/'' \<and> uri ! e \<noteq> CHR '' ''"
        using \<open>e < length uri\<close> by (simp add: host_char_def)
      then have "scan_host uri e = scan_host uri (e + 1)"
        by (subst scan_host.simps) simp
      also have "\<dots> = (e + 1) + length (takeWhile host_char (drop (e + 1) uri))"
        using "1.IH" [OF g] \<open>e < length uri\<close> by simp
      finally show ?thesis using True d by simp
    next
      case False
      then have "scan_host uri e = e"
        by (subst scan_host.simps) (auto simp: host_char_def)
      then show ?thesis using False d by simp
    qed
  next
    case False
    then have "scan_host uri e = e"
      by (subst scan_host.simps) simp
    then show ?thesis using False "1.prems" by simp
  qed
qed

lemma scan_port_takeWhile:
  "e \<le> length uri \<Longrightarrow> scan_port uri e = e + length (takeWhile port_char (drop e uri))"
proof (induction uri e rule: scan_port.induct)
  case (1 uri e)
  show ?case
  proof (cases "e < length uri")
    case True
    then have d: "drop e uri = uri ! e # drop (Suc e) uri"
      by (simp add: Cons_nth_drop_Suc)
    show ?thesis
    proof (cases "port_char (uri ! e)")
      case True
      then have g: "e < length uri \<and> uri ! e \<noteq> CHR ''/'' \<and> uri ! e \<noteq> CHR '' ''"
        using \<open>e < length uri\<close> by (simp add: port_char_def)
      then have "scan_port uri e = scan_port uri (e + 1)"
        by (subst scan_port.simps) simp
      also have "\<dots> = (e + 1) + length (takeWhile port_char (drop (e + 1) uri))"
        using "1.IH" [OF g] \<open>e < length uri\<close> by simp
      finally show ?thesis using True d by simp
    next
      case False
      then have "scan_port uri e = e"
        by (subst scan_port.simps) (auto simp: port_char_def)
      then show ?thesis using False d by simp
    qed
  next
    case False
    then have "scan_port uri e = e"
      by (subst scan_port.simps) simp
    then show ?thesis using False "1.prems" by simp
  qed
qed

lemma deref_drop: "deref s i = (case drop i s of [] \<Rightarrow> None | c # _ \<Rightarrow> Some c)"
  by (cases "i < length s") (simp_all add: deref_def Cons_nth_drop_Suc [symmetric])

lemma drop_scan: "drop (length (takeWhile P xs)) xs = dropWhile P xs"
  by (simp add: dropWhile_eq_drop)

lemma take_scan: "take (length (takeWhile P xs)) xs = takeWhile P xs"
  by (simp add: takeWhile_eq_take [symmetric])

lemma drop_past: "drop i s = c # cs \<Longrightarrow> drop (i + 1 + n) s = drop n cs"
  by (metis add.commute add.assoc drop_drop drop_Suc_Cons plus_1_eq_Suc)

lemma processUri_decompose:
  assumes "length uri < MAXLINE" and "uri = ''http://'' @ rest"
  shows "processUri MAXLINE uri = Some (decompose_spec rest)"
proof -
  have len: "HTTP_PREFIX_LEN \<le> length uri" and dr: "drop HTTP_PREFIX_LEN uri = rest"
    using assms(2) by (simp_all add: HTTP_PREFIX_LEN_def)
  let ?h = "takeWhile host_char rest"
  let ?a = "dropWhile host_char rest"
  let ?e1 = "scan_host uri HTTP_PREFIX_LEN"
  have e1: "?e1 = HTTP_PREFIX_LEN + length ?h"
    using scan_host_takeWhile [OF len] dr by simp
  have host: "strncpy (drop HTTP_PREFIX_LEN uri) (?e1 - HTTP_PREFIX_LEN) = ?h"
    by (simp add: e1 dr strncpy_def take_scan)
  have d1: "drop ?e1 uri = ?a"
    using dr by (simp add: e1 add.commute [of HTTP_PREFIX_LEN] drop_drop [symmetric] drop_scan del: drop_drop)
  have le1: "?e1 \<le> length uri"
    using e1 dr length_takeWhile_le [of host_char rest] assms(2) by (simp add: HTTP_PREFIX_LEN_def)
  have big: "2 < MAXLINE"
    using assms by simp
  have fit: "length (takeWhile P (drop i uri)) < MAXLINE" "length (dropWhile P (drop i uri)) < MAXLINE" for P i
    using assms(1) length_takeWhile_le [of P "drop i uri"] length_dropWhile_le [of P "drop i uri"] by simp_all
  have hfit: "length ?h < MAXLINE"
    using fit(1) [of host_char HTTP_PREFIX_LEN] dr by simp
  have afit: "length ?a < MAXLINE"
    using fit(2) [of host_char HTTP_PREFIX_LEN] dr by simp
  have path1: "strncpy (drop ?e1 uri) MAXLINE = ?a"
    using afit by (simp add: d1 strncpy_def)
  show ?thesis
  proof (cases ?a)
    case Nil
    then have de: "deref uri ?e1 = None"
      by (simp only: deref_drop d1 list.case)
    have P: "processUri MAXLINE uri = Some ([], ?h, ''80'')"
      using de host hfit big len by (simp add: processUri_def Let_def)
    have D: "decompose_spec rest = ([], ?h, ''80'')"
      using Nil by (simp add: decompose_spec_def Let_def del: dropWhile_eq_Nil_conv)
    show ?thesis by (simp only: P D)
  next
    case (Cons c cs)
    then have de: "deref uri ?e1 = Some c"
      by (simp only: deref_drop d1 list.case)
    show ?thesis
    proof (cases "c = CHR '':''")
      case False
      have P: "processUri MAXLINE uri = Some (if c = CHR ''/'' then ?a else [], ?h, ''80'')"
        using False de host path1 hfit afit big len by (simp add: processUri_def Let_def)
      have D: "decompose_spec rest = (if c = CHR ''/'' then ?a else [], ?h, ''80'')"
        using False Cons by (simp add: decompose_spec_def Let_def)
      show ?thesis by (simp only: P D)
    next
      case True
      let ?p = "takeWhile port_char cs"
      let ?b = "dropWhile port_char cs"
      let ?e2 = "scan_port uri ?e1"
      have c1: "drop ?e1 uri = CHR '':'' # cs"
        using d1 Cons True by simp
      have cs: "cs = drop (?e1 + 1) uri"
        using c1 drop_past [of ?e1 uri _ cs 0] by simp
      have e2: "?e2 = ?e1 + 1 + length ?p"
        using scan_port_takeWhile [OF le1] c1 by (simp add: port_char_def)
      have port: "strncpy (drop (?e1 + 1) uri) (?e2 - (?e1 + 1)) = ?p"
        using cs by (simp add: e2 strncpy_def take_scan)
      have d2: "drop ?e2 uri = ?b"
        using drop_past [OF c1, of "length ?p"] by (simp add: e2 drop_scan)
      have pfit: "length ?p < MAXLINE" and bfit: "length ?b < MAXLINE"
        using fit [of port_char "?e1 + 1"] cs by simp_all
      have path2: "strncpy (drop ?e2 uri) MAXLINE = ?b"
        using bfit by (simp add: d2 strncpy_def)
      have de2: "deref uri ?e2 = (case ?b of [] \<Rightarrow> None | x # _ \<Rightarrow> Some x)"
        by (simp only: deref_drop d2)
      have P: "processUri MAXLINE uri =
                 Some (if (case ?b of [] \<Rightarrow> None | x # _ \<Rightarrow> Some x) = Some (CHR ''/'') then ?b else [], ?h, ?p)"
        using True de de2 host port path2 hfit pfit bfit len
        by (simp add: processUri_def Let_def)
      have D: "decompose_spec rest =
                 (if (case ?b of [] \<Rightarrow> None | x # _ \<Rightarrow> Some x) = Some (CHR ''/'') then ?b else [], ?h, ?p)"
        using True Cons
        by (cases ?b) (simp_all add: decompose_spec_def Let_def del: dropWhile_eq_Nil_conv)
      show ?thesis by (simp only: P D)
    qed
  qed
qed

text \<open>
  C1. For every URI that begins with \<open>http://\<close> (and fits a line buffer, as every
  URI taken from a request line does), \<open>processUri\<close> returns the host, port and path
  the specification describes.
\<close>

theorem processUri_spec:
  assumes "length (''http://'' @ rest) < MAXLINE"
  shows "processUri MAXLINE (''http://'' @ rest) = Some (decompose_spec rest)"
  using assms by (rule processUri_decompose) simp

lemma decompose_example:
  "decompose_spec ''example.com:8080/a/b'' = (''/a/b'', ''example.com'', ''8080'')"
  by (simp add: decompose_spec_def host_char_def port_char_def)

theorem processUri_spec_witness:
  "length (''http://'' @ ''example.com:8080/a/b'') < 8192 \<and>
   processUri 8192 (''http://'' @ ''example.com:8080/a/b'') = Some (''/a/b'', ''example.com'', ''8080'')"
proof -
  have h: "length (''http://'' @ ''example.com:8080/a/b'') < 8192"
    by simp
  show ?thesis
    using h processUri_spec [OF h] by (simp only: decompose_example simp_thms)
qed

lemma takeWhile_host:
  "\<forall>c\<in>set h. host_char c \<Longrightarrow> \<not> host_char x \<Longrightarrow> takeWhile host_char (h @ x # r) = h"
  by (simp add: takeWhile_tail)

lemma dropWhile_host:
  "\<forall>c\<in>set h. host_char c \<Longrightarrow> \<not> host_char x \<Longrightarrow> dropWhile host_char (h @ x # r) = x # r"
  by (simp add: dropWhile_append3)

lemma decompose_colon:
  assumes "\<forall>c\<in>set h. host_char c" and "rest = [] \<or> hd rest = CHR ''/'' \<or> hd rest = CHR '' ''"
  shows "decompose_spec (h @ '':'' @ rest) = (if rest \<noteq> [] \<and> hd rest = CHR ''/'' then rest else [], h, [])"
proof -
  have t: "takeWhile host_char (h @ CHR '':'' # rest) = h"
    and d: "dropWhile host_char (h @ CHR '':'' # rest) = CHR '':'' # rest"
    using assms(1) by (simp_all add: takeWhile_host dropWhile_host host_char_def)
  have "decompose_spec (h @ '':'' @ rest) =
          (case dropWhile port_char rest of
             [] \<Rightarrow> []
           | c # cs \<Rightarrow> if c = CHR ''/'' then dropWhile port_char rest else [],
           h, takeWhile port_char rest)"
    by (simp add: decompose_spec_def t d Let_def)
  then show ?thesis
    using assms(2) by (cases rest) (auto simp add: port_char_def)
qed

lemma decompose_plain:
  assumes "\<forall>c\<in>set h. host_char c" and "rest = [] \<or> hd rest = CHR ''/'' \<or> hd rest = CHR '' ''"
  shows "decompose_spec (h @ rest) = (if rest \<noteq> [] \<and> hd rest = CHR ''/'' then rest else [], h, ''80'')"
proof (cases rest)
  case Nil
  have t: "takeWhile host_char h = h" and d: "dropWhile host_char h = []"
    using assms(1) by simp_all
  show ?thesis
    unfolding Nil decompose_spec_def Let_def append_Nil2 t d by simp
next
  case (Cons c cs)
  then have nh: "\<not> host_char c" and nc: "c \<noteq> CHR '':''"
    using assms(2) by (auto simp: host_char_def)
  have t: "takeWhile host_char (h @ c # cs) = h"
    and d: "dropWhile host_char (h @ c # cs) = c # cs"
    using assms(1) nh by (simp_all add: takeWhile_host dropWhile_host)
  show ?thesis
    using nc by (simp add: Cons decompose_spec_def t d)
qed

text \<open>
  C10. When a colon follows the host and no port character follows the colon, the
  port is the empty string, not \<open>80\<close>; the same URI without the colon has the port
  \<open>80\<close>.
\<close>

theorem processUri_empty_port:
  assumes "length (''http://'' @ h @ '':'' @ rest) < MAXLINE"
    and "\<forall>c\<in>set h. host_char c"
    and "rest = [] \<or> hd rest = CHR ''/'' \<or> hd rest = CHR '' ''"
  shows "processUri MAXLINE (''http://'' @ h @ '':'' @ rest) =
           Some (if rest \<noteq> [] \<and> hd rest = CHR ''/'' then rest else [], h, []) \<and>
         processUri MAXLINE (''http://'' @ h @ rest) =
           Some (if rest \<noteq> [] \<and> hd rest = CHR ''/'' then rest else [], h, ''80'')"
proof -
  have l: "length (''http://'' @ h @ rest) < MAXLINE"
    using assms(1) by simp
  show ?thesis
    using processUri_decompose [OF assms(1) refl] decompose_colon [OF assms(2,3)]
      processUri_decompose [OF l refl] decompose_plain [OF assms(2,3)]
    by simp
qed

theorem processUri_empty_port_witness:
  "length (''http://'' @ ''example.com'' @ '':'' @ ''/a'') < 8192 \<and>
   list_all host_char ''example.com'' \<and>
   processUri 8192 (''http://'' @ ''example.com'' @ '':'' @ ''/a'') = Some (''/a'', ''example.com'', []) \<and>
   processUri 8192 (''http://'' @ ''example.com'' @ ''/a'') = Some (''/a'', ''example.com'', ''80'')"
proof -
  have h1: "length (''http://'' @ ''example.com'' @ '':'' @ ''/a'') < 8192"
    by simp
  have h2: "\<forall>c\<in>set ''example.com''. host_char c"
    by (simp add: host_char_def)
  have h3: "''/a'' = [] \<or> hd ''/a'' = CHR ''/'' \<or> hd ''/a'' = CHR '' ''"
    by simp
  have "processUri 8192 (''http://'' @ ''example.com'' @ '':'' @ ''/a'') =
          Some (if ''/a'' \<noteq> [] \<and> hd ''/a'' = CHR ''/'' then ''/a'' else [], ''example.com'', []) \<and>
        processUri 8192 (''http://'' @ ''example.com'' @ ''/a'') =
          Some (if ''/a'' \<noteq> [] \<and> hd ''/a'' = CHR ''/'' then ''/a'' else [], ''example.com'', ''80'')"
    by (rule processUri_empty_port [OF h1 h2 h3])
  then have "processUri 8192 (''http://'' @ ''example.com'' @ '':'' @ ''/a'') = Some (''/a'', ''example.com'', []) \<and>
             processUri 8192 (''http://'' @ ''example.com'' @ ''/a'') = Some (''/a'', ''example.com'', ''80'')"
    by simp
  with h1 h2 show ?thesis by (simp add: list_all_iff)
qed

section \<open>The effects of the primitives\<close>

lemma emit_simps [simp]:
  "trace (emit e w) = trace w @ [e]"
  "client_lines (emit e w) = client_lines w"
  "server_bytes (emit e w) = server_bytes w"
  "server_fatal (emit e w) = server_fatal w"
  "write_ok (emit e w) = write_ok w"
  "connects (emit e w) = connects w"
  "parser (emit e w) = parser w"
  by (simp_all add: emit_def)

lemma next_ok_emit [simp]: "next_ok (emit e w) fd = next_ok w fd"
  by (simp add: next_ok_def)

lemma rio_writen_simps [simp]:
  "fst (rio_writen fd s w) = next_ok w fd"
  "trace (snd (rio_writen fd s w)) = trace w @ [Rio_writen fd s (next_ok w fd)]"
  "client_lines (snd (rio_writen fd s w)) = client_lines w"
  "server_bytes (snd (rio_writen fd s w)) = server_bytes w"
  "server_fatal (snd (rio_writen fd s w)) = server_fatal w"
  "connects (snd (rio_writen fd s w)) = connects w"
  "parser (snd (rio_writen fd s w)) = parser w"
  by (simp_all add: rio_writen_def next_ok_def split: list.splits)

lemma rio_writen_write_ok [simp]:
  "write_ok (snd (rio_writen fd s w)) fd' = (if fd' = fd then tl (write_ok w fd) else write_ok w fd')"
  by (simp add: rio_writen_def split: list.splits)

lemma next_ok_rio_writen [simp]:
  "fd' \<noteq> fd \<Longrightarrow> next_ok (snd (rio_writen fd s w)) fd' = next_ok w fd'"
  by (simp add: next_ok_def)

lemma rio_readlineb_fst:
  "fst (rio_readlineb buf w) = (case client_lines w of [] \<Rightarrow> (0, buf) | r # rs \<Rightarrow> r)"
  by (simp add: rio_readlineb_def split: list.splits)

lemma rio_readlineb_simps [simp]:
  "client_lines (snd (rio_readlineb buf w)) = tl (client_lines w)"
  "trace (snd (rio_readlineb buf w)) = trace w"
  "server_bytes (snd (rio_readlineb buf w)) = server_bytes w"
  "server_fatal (snd (rio_readlineb buf w)) = server_fatal w"
  "write_ok (snd (rio_readlineb buf w)) = write_ok w"
  "connects (snd (rio_readlineb buf w)) = connects w"
  "parser (snd (rio_readlineb buf w)) = parser w"
  by (simp_all add: rio_readlineb_def split: list.splits)

lemma next_ok_rio_readlineb [simp]: "next_ok (snd (rio_readlineb buf w)) fd = next_ok w fd"
  by (simp add: next_ok_def)

section \<open>The Header Relay\<close>

lemma take_strlen [simp]: "take (strlen buf) buf = c_str buf"
  by (simp add: strlen_def c_str_def takeWhile_eq_take [symmetric])

lemma c_str_no_NUL: "NUL \<notin> set s \<Longrightarrow> c_str s = s"
  by (auto simp add: c_str_def)

lemma c_str_CRLF [simp]: "c_str CRLF = CRLF"
  by (simp add: c_str_def CRLF_def NUL_def)

lemma strcmp_CRLF [simp]: "strcmp_eq buf CRLF = (c_str buf = CRLF)"
  by (simp add: strcmp_eq_def)

lemma prefix_c_str:
  assumes "NUL \<notin> set name"
  shows "prefix name (c_str s) = prefix name s"
proof
  assume "prefix name (c_str s)"
  moreover have "prefix (c_str s) s"
    by (simp add: c_str_def takeWhile_is_prefix)
  ultimately show "prefix name s"
    by (rule prefix_order.trans)
next
  assume "prefix name s"
  then obtain r where "s = name @ r"
    by (auto simp: prefix_def)
  moreover have "\<And>c. c \<in> set name \<Longrightarrow> c \<noteq> NUL"
    using assms by auto
  ultimately have "c_str s = name @ c_str r"
    by (simp add: c_str_def takeWhile_append2)
  then show "prefix name (c_str s)"
    by simp
qed

lemma strncmp_prefix:
  assumes "n = length name" and "NUL \<notin> set name"
  shows "strncmp_eq s name n = prefix name s"
proof -
  have "strncmp_eq s name n = (take (length name) (c_str s) = name)"
    using assms by (simp add: strncmp_eq_def c_str_no_NUL)
  also have "\<dots> = prefix name (c_str s)"
  proof
    assume "take (length name) (c_str s) = name"
    then show "prefix name (c_str s)"
      by (metis take_is_prefix)
  next
    assume "prefix name (c_str s)"
    then show "take (length name) (c_str s) = name"
      by (auto simp: prefix_def)
  qed
  also have "\<dots> = prefix name s"
    using assms(2) by (rule prefix_c_str)
  finally show ?thesis .
qed

lemma skipped_blacklisted:
  "(strncmp_eq buf ''Host:'' HOST_HEADER_LEN \<or>
    strncmp_eq buf ''Connection:'' CONN_HEADER_LEN \<or>
    strncmp_eq buf ''User-Agent:'' USER_AGENT_HEADER_LEN \<or>
    strncmp_eq buf ''Proxy-Connection:'' PROXY_CONN_HEADER_LEN) = blacklisted buf"
proof -
  have "strncmp_eq buf ''Host:'' HOST_HEADER_LEN = prefix ''Host:'' buf"
    by (rule strncmp_prefix) (simp_all add: HOST_HEADER_LEN_def NUL_def)
  moreover have "strncmp_eq buf ''Connection:'' CONN_HEADER_LEN = prefix ''Connection:'' buf"
    by (rule strncmp_prefix) (simp_all add: CONN_HEADER_LEN_def NUL_def)
  moreover have "strncmp_eq buf ''User-Agent:'' USER_AGENT_HEADER_LEN = prefix ''User-Agent:'' buf"
    by (rule strncmp_prefix) (simp_all add: USER_AGENT_HEADER_LEN_def NUL_def)
  moreover have "strncmp_eq buf ''Proxy-Connection:'' PROXY_CONN_HEADER_LEN = prefix ''Proxy-Connection:'' buf"
    by (rule strncmp_prefix) (simp_all add: PROXY_CONN_HEADER_LEN_def NUL_def)
  ultimately show ?thesis
    by (simp add: blacklisted_def blacklist_def)
qed


lemma forwarded_stop:
  "\<not> (0 < temp \<and> c_str buf \<noteq> CRLF) \<Longrightarrow> forwarded ((temp, buf) # reads) = []"
  by (auto simp add: forwarded_def header_lines_def)

lemma forwarded_step:
  "0 < temp \<Longrightarrow> c_str buf \<noteq> CRLF \<Longrightarrow>
   forwarded ((temp, buf) # reads) =
     (if blacklisted buf then forwarded reads else c_str buf # forwarded reads)"
  by (simp add: forwarded_def header_lines_def)

lemma forwarded_next:
  "forwarded (fst (rio_readlineb buf w) # client_lines (snd (rio_readlineb buf w))) =
   forwarded (client_lines w)"
  by (cases "client_lines w") (simp_all add: forwarded_def header_lines_def rio_readlineb_fst)


lemma relay_step_ok:
  assumes "next_ok w Server"
  shows "relay_events (l # ls) (write_ok w Server) =
           Rio_writen Server l True # relay_events ls (tl (write_ok w Server))"
    and "relay_ok (l # ls) (write_ok w Server) = relay_ok ls (tl (write_ok w Server))"
    and "relay_left (l # ls) (write_ok w Server) = relay_left ls (tl (write_ok w Server))"
  using assms by (cases "write_ok w Server"; cases ls; simp add: next_ok_def)+

lemma relay_step_fail:
  assumes "\<not> next_ok w Server"
  shows "relay_events (l # ls) (write_ok w Server) = [Rio_writen Server l False, Close Server]"
    and "relay_ok (l # ls) (write_ok w Server) = False"
    and "relay_left (l # ls) (write_ok w Server) = tl (write_ok w Server)"
  using assms by (cases "write_ok w Server"; simp add: next_ok_def)+

lemma readLine_run:
  "fst (readLine buf temp w) =
     relay_ok (forwarded ((temp, buf) # client_lines w)) (write_ok w Server) \<and>
   trace (snd (readLine buf temp w)) =
     trace w @ relay_events (forwarded ((temp, buf) # client_lines w)) (write_ok w Server) \<and>
   write_ok (snd (readLine buf temp w)) Server =
     relay_left (forwarded ((temp, buf) # client_lines w)) (write_ok w Server) \<and>
   write_ok (snd (readLine buf temp w)) Client = write_ok w Client \<and>
   server_bytes (snd (readLine buf temp w)) = server_bytes w \<and>
   server_fatal (snd (readLine buf temp w)) = server_fatal w \<and>
   connects (snd (readLine buf temp w)) = connects w \<and>
   parser (snd (readLine buf temp w)) = parser w"
proof (induction buf temp w rule: readLine.induct)
  case (1 buf temp w)
  let ?skipped = "strncmp_eq buf ''Host:'' HOST_HEADER_LEN \<or>
                  strncmp_eq buf ''Connection:'' CONN_HEADER_LEN \<or>
                  strncmp_eq buf ''User-Agent:'' USER_AGENT_HEADER_LEN \<or>
                  strncmp_eq buf ''Proxy-Connection:'' PROXY_CONN_HEADER_LEN"
  show ?case
  proof (cases "0 < temp \<and> c_str buf \<noteq> CRLF")
    case False
    then have "readLine buf temp w = (True, w)"
      by (subst readLine.simps) auto
    then show ?thesis
      using False by (simp add: forwarded_stop)
  next
    case True
    then have pos: "0 < temp" and ne: "\<not> strcmp_eq buf CRLF" and ne': "c_str buf \<noteq> CRLF"
      by simp_all
    show ?thesis
    proof (cases "blacklisted buf")
      case True
      then have sk: "\<not> \<not> ?skipped"
        by (simp only: skipped_blacklisted simp_thms)
      let ?n = "rio_readlineb buf w"
      have r: "readLine buf temp w = readLine (snd (fst ?n)) (fst (fst ?n)) (snd ?n)"
        using pos ne True
        by (subst readLine.simps) (simp add: skipped_blacklisted Let_def case_prod_beta)
      have fw: "forwarded ((temp, buf) # client_lines w) = forwarded (client_lines w)"
        using True pos ne' by (simp add: forwarded_step)
      have nx: "forwarded ((fst (fst ?n), snd (fst ?n)) # tl (client_lines w)) =
                  forwarded (client_lines w)"
        using forwarded_next [of buf w] by simp
      note ih = "1.IH"(2) [OF pos ne refl sk prod.collapse prod.collapse]
      show ?thesis
        using ih by (simp only: r fw nx rio_readlineb_simps)
    next
      case False
      then have sk: "\<not> ?skipped"
        by (simp only: skipped_blacklisted simp_thms)
      let ?w1 = "snd (rio_writen Server (c_str buf) w)"
      let ?n = "rio_readlineb buf ?w1"
      have fw: "forwarded ((temp, buf) # client_lines w) = c_str buf # forwarded (client_lines w)"
        using False pos ne' by (simp add: forwarded_step)
      show ?thesis
      proof (cases "next_ok w Server")
        case False
        then have r: "readLine buf temp w = (False, close Server ?w1)"
          using pos ne \<open>\<not> blacklisted buf\<close>
          by (subst readLine.simps) (simp add: skipped_blacklisted Let_def case_prod_beta)
        show ?thesis
          using False by (simp add: r fw relay_step_fail close_def)
      next
        case True
        then have r: "readLine buf temp w = readLine (snd (fst ?n)) (fst (fst ?n)) (snd ?n)"
          using pos ne \<open>\<not> blacklisted buf\<close>
          by (subst readLine.simps) (simp add: skipped_blacklisted Let_def case_prod_beta)
        have ok: "\<not> \<not> fst (rio_writen Server (take (strlen buf) buf) w)"
          using True by simp
        have nx: "forwarded (fst ?n # tl (client_lines w)) = forwarded (client_lines w)"
          using forwarded_next [of buf ?w1] by simp
        note ih = "1.IH"(1) [OF pos ne refl sk prod.collapse ok prod.collapse prod.collapse]
        show ?thesis
          using ih True by (simp add: r fw nx relay_step_ok)
      qed
    qed
  qed
qed

lemmas readLine_simps [simp] =
  readLine_run [THEN conjunct1]
  readLine_run [THEN conjunct2, THEN conjunct1]
  readLine_run [THEN conjunct2, THEN conjunct2, THEN conjunct1]
  readLine_run [THEN conjunct2, THEN conjunct2, THEN conjunct2, THEN conjunct1]
  readLine_run [THEN conjunct2, THEN conjunct2, THEN conjunct2, THEN conjunct2, THEN conjunct1]
  readLine_run [THEN conjunct2, THEN conjunct2, THEN conjunct2, THEN conjunct2, THEN conjunct2, THEN conjunct1]
  readLine_run [THEN conjunct2, THEN conjunct2, THEN conjunct2, THEN conjunct2, THEN conjunct2, THEN conjunct2, THEN conjunct1]
  readLine_run [THEN conjunct2, THEN conjunct2, THEN conjunct2, THEN conjunct2, THEN conjunct2, THEN conjunct2, THEN conjunct2]



lemma relay_ok_Nil [simp]: "relay_ok ls []"
  by (cases ls) simp_all

lemma writes_relay_all: "relay_ok ls oks \<Longrightarrow> writes Server (relay_events ls oks) = ls"
  by (induction ls oks rule: relay_events.induct) auto

lemma relay_ok_all: "\<forall>ok\<in>set oks. ok \<Longrightarrow> relay_ok ls oks"
  by (induction ls oks rule: relay_ok.induct) auto

lemma writes_relay_client: "writes Client (relay_events ls oks) = []"
  by (induction ls oks rule: relay_events.induct) auto





section \<open>The Response Relay\<close>

lemma rio_readnb_simps [simp]:
  "trace (snd (rio_readnb n w)) = trace w"
  "write_ok (snd (rio_readnb n w)) = write_ok w"
  "server_fatal (snd (rio_readnb n w)) = server_fatal w"
  by (simp_all add: rio_readnb_def)

lemma next_ok_rio_readnb [simp]: "next_ok (snd (rio_readnb n w)) fd = next_ok w fd"
  by (simp add: next_ok_def)

lemma response_loop_unfold:
  "response_loop MAXLINE w =
     (if server_bytes w = [] \<and> server_fatal w
      then (False, emit Undefined_behaviour w)
      else if take MAXLINE (server_bytes w) = [] then (True, snd (rio_readnb MAXLINE w))
      else if next_ok w Client
      then response_loop MAXLINE
             (snd (rio_writen Client (take MAXLINE (server_bytes w)) (snd (rio_readnb MAXLINE w))))
      else (True, snd (rio_writen Client (take MAXLINE (server_bytes w)) (snd (rio_readnb MAXLINE w)))))"
  by (subst response_loop.simps)
     (simp add: rio_readnb_def next_ok_def case_prod_beta)


lemma response_loop_trace: "\<exists>evs. trace (snd (response_loop MAXLINE w)) = trace w @ evs"
proof (induction MAXLINE w rule: response_loop.induct)
  case (1 MAXLINE w)
  let ?w1 = "snd (rio_readnb MAXLINE w)"
  let ?chunk = "take MAXLINE (server_bytes w)"
  let ?w2 = "snd (rio_writen Client ?chunk ?w1)"
  show ?case
  proof (cases "\<not> (server_bytes w = [] \<and> server_fatal w) \<and> ?chunk \<noteq> [] \<and> next_ok w Client")
    case False
    then show ?thesis
      by (subst response_loop_unfold) auto
  next
    case True
    then have r: "response_loop MAXLINE w = response_loop MAXLINE ?w2"
      by (subst response_loop_unfold) simp
    have rd: "rio_readnb MAXLINE w = (Bytes ?chunk, ?w1)"
      using True by (simp add: rio_readnb_def)
    have "\<exists>evs. trace (snd (response_loop MAXLINE ?w2)) = trace ?w2 @ evs"
      using True by (intro "1.IH" [OF rd [symmetric] refl _ prod.collapse]) simp_all
    then show ?thesis
      by (auto simp: r)
  qed
qed

lemma response_loop_events [simp]:
  "trace (snd (response_loop MAXLINE w)) = trace w @ loop_events MAXLINE w"
  using response_loop_trace [of MAXLINE w] by (auto simp: loop_events_def new_events_def)

lemma loop_events_unfold:
  "loop_events MAXLINE w =
     (if server_bytes w = [] \<and> server_fatal w then [Undefined_behaviour]
      else if take MAXLINE (server_bytes w) = [] then []
      else Rio_writen Client (take MAXLINE (server_bytes w)) (next_ok w Client) #
           (if next_ok w Client
            then loop_events MAXLINE
                   (snd (rio_writen Client (take MAXLINE (server_bytes w)) (snd (rio_readnb MAXLINE w))))
            else []))"
proof -
  let ?w2 = "snd (rio_writen Client (take MAXLINE (server_bytes w)) (snd (rio_readnb MAXLINE w)))"
  have "trace w @ loop_events MAXLINE w =
        trace w @ (if server_bytes w = [] \<and> server_fatal w then [Undefined_behaviour]
          else if take MAXLINE (server_bytes w) = [] then []
          else Rio_writen Client (take MAXLINE (server_bytes w)) (next_ok w Client) #
               (if next_ok w Client then loop_events MAXLINE ?w2 else []))"
    unfolding response_loop_events [symmetric]
    by (subst response_loop_unfold) (simp add: response_loop_events)
  then show ?thesis
    by (simp only: same_append_eq)
qed


lemma loop_induct [consumes 0, case_names fatal eof failed step]:
  assumes fatal: "\<And>w. server_bytes w = [] \<Longrightarrow> server_fatal w \<Longrightarrow> P w"
    and eof: "\<And>w. \<not> (server_bytes w = [] \<and> server_fatal w) \<Longrightarrow>
                take MAXLINE (server_bytes w) = [] \<Longrightarrow> P w"
    and failed: "\<And>w. \<not> (server_bytes w = [] \<and> server_fatal w) \<Longrightarrow>
                take MAXLINE (server_bytes w) \<noteq> [] \<Longrightarrow> \<not> next_ok w Client \<Longrightarrow> P w"
    and step: "\<And>w. \<not> (server_bytes w = [] \<and> server_fatal w) \<Longrightarrow>
                take MAXLINE (server_bytes w) \<noteq> [] \<Longrightarrow> next_ok w Client \<Longrightarrow>
                P (snd (rio_writen Client (take MAXLINE (server_bytes w)) (snd (rio_readnb MAXLINE w)))) \<Longrightarrow>
                P w"
  shows "P w"
proof -
  have "M = MAXLINE \<Longrightarrow> P w" for M
  proof (induction M w rule: response_loop.induct)
    case (1 M w)
    let ?w1 = "snd (rio_readnb MAXLINE w)"
    let ?chunk = "take MAXLINE (server_bytes w)"
    let ?w2 = "snd (rio_writen Client ?chunk ?w1)"
    show ?case
    proof (cases "server_bytes w = [] \<and> server_fatal w")
      case True
      then show ?thesis by (simp add: fatal)
    next
      case nf: False
      show ?thesis
      proof (cases "?chunk = []")
        case True
        then show ?thesis by (rule eof [OF nf])
      next
        case ne: False
        show ?thesis
        proof (cases "next_ok w Client")
          case False
          then show ?thesis by (rule failed [OF nf ne])
        next
          case True
          have rd: "rio_readnb M w = (Bytes ?chunk, ?w1)"
            using nf "1.prems" by (simp add: rio_readnb_def)
          have "P ?w2"
            using True ne "1.prems"
            by (intro "1.IH" [OF rd [symmetric] refl _ prod.collapse]) simp_all
          then show ?thesis
            by (rule step [OF nf ne True])
        qed
      qed
    qed
  qed
  then show ?thesis by simp
qed

lemma rio_readnb_bytes:
  "\<not> (server_bytes w = [] \<and> server_fatal w) \<Longrightarrow>
   server_bytes (snd (rio_readnb n w)) = drop n (server_bytes w)"
  by (simp add: rio_readnb_def)

lemma loop_shape:
  "\<forall>e\<in>set (loop_events MAXLINE w).
     e = Undefined_behaviour \<or>
     (\<exists>s ok. e = Rio_writen Client s ok \<and> 0 < length s \<and> length s \<le> MAXLINE)"
proof (induction w rule: loop_induct [where MAXLINE = MAXLINE])
  case (fatal w)
  then show ?case by (subst loop_events_unfold) auto
next
  case (eof w)
  then show ?case by (subst loop_events_unfold) auto
next
  case (failed w)
  then show ?case by (subst loop_events_unfold) auto
next
  case (step w)
  then show ?case by (subst loop_events_unfold) auto
qed

lemma loop_returns: "\<not> server_fatal w \<Longrightarrow> fst (response_loop MAXLINE w)"
proof (induction w rule: loop_induct [where MAXLINE = MAXLINE])
  case (fatal w)
  then show ?case by simp
next
  case (eof w)
  then show ?case by (subst response_loop_unfold) simp
next
  case (failed w)
  then show ?case by (subst response_loop_unfold) simp
next
  case (step w)
  then show ?case by (subst response_loop_unfold) simp
qed

lemma prefix_take_drop: "prefix ys (drop n xs) \<Longrightarrow> prefix (take n xs @ ys) xs"
  by (metis append_take_drop_id same_prefix_prefix)

lemma loop_delivered_prefix: "prefix (delivered Client (loop_events MAXLINE w)) (server_bytes w)"
proof (induction w rule: loop_induct [where MAXLINE = MAXLINE])
  case (fatal w)
  then show ?case by (subst loop_events_unfold) simp
next
  case (eof w)
  then show ?case by (subst loop_events_unfold) simp
next
  case (failed w)
  then show ?case by (subst loop_events_unfold) simp
next
  case (step w)
  let ?w2 = "snd (rio_writen Client (take MAXLINE (server_bytes w)) (snd (rio_readnb MAXLINE w)))"
  have sb: "server_bytes (snd (rio_readnb MAXLINE w)) = drop MAXLINE (server_bytes w)"
    using step.hyps(1) by (rule rio_readnb_bytes)
  have "prefix (take MAXLINE (server_bytes w) @ delivered Client (loop_events MAXLINE ?w2))
               (server_bytes w)"
    using step.IH by (intro prefix_take_drop) (simp add: sb)
  then show ?case
    using step.hyps by (subst loop_events_unfold) simp
qed

lemma loop_delivered_all:
  "0 < MAXLINE \<Longrightarrow> \<not> server_fatal w \<Longrightarrow> \<forall>ok\<in>set (write_ok w Client). ok \<Longrightarrow>
   delivered Client (loop_events MAXLINE w) = server_bytes w"
proof (induction w rule: loop_induct [where MAXLINE = MAXLINE])
  case (fatal w)
  then show ?case by simp
next
  case (eof w)
  then show ?case by (subst loop_events_unfold) simp
next
  case (failed w)
  then have False
    by (cases "write_ok w Client") (simp_all add: next_ok_def)
  then show ?case ..
next
  case (step w)
  let ?w2 = "snd (rio_writen Client (take MAXLINE (server_bytes w)) (snd (rio_readnb MAXLINE w)))"
  have sb: "server_bytes (snd (rio_readnb MAXLINE w)) = drop MAXLINE (server_bytes w)"
    using step.hyps(1) by (rule rio_readnb_bytes)
  have "\<forall>ok\<in>set (write_ok ?w2 Client). ok"
    using step.prems(3) by (cases "write_ok w Client") auto
  then have "delivered Client (loop_events MAXLINE ?w2) = drop MAXLINE (server_bytes w)"
    using step.IH step.prems(1,2) by (simp add: sb)
  then show ?case
    using step.hyps by (subst loop_events_unfold) simp
qed


section \<open>The Connection Handler\<close>

lemma simple_effects [simp]:
  "trace (parser_new w) = trace w @ [Parser_new]"
  "trace (parser_free w) = trace w @ [Parser_free]"
  "trace (close fd w) = trace w @ [Close fd]"
  "trace (cleanUp w) = trace w @ [Close Server, Parser_free]"
  "client_lines (parser_new w) = client_lines w"
  "server_bytes (parser_new w) = server_bytes w"
  "server_fatal (parser_new w) = server_fatal w"
  "write_ok (parser_new w) = write_ok w"
  "connects (parser_new w) = connects w"
  "parser (parser_new w) = parser w"
  by (simp_all add: parser_new_def parser_free_def close_def cleanUp_def)

lemma next_ok_parser_new [simp]: "next_ok (parser_new w) fd = next_ok w fd"
  by (simp add: next_ok_def)

lemma open_clientfd_simps [simp]:
  "fst (open_clientfd host port w) = connects w host port"
  "trace (snd (open_clientfd host port w)) = trace w @ [Open_clientfd host port (connects w host port)]"
  "client_lines (snd (open_clientfd host port w)) = client_lines w"
  "server_bytes (snd (open_clientfd host port w)) = server_bytes w"
  "server_fatal (snd (open_clientfd host port w)) = server_fatal w"
  "write_ok (snd (open_clientfd host port w)) = write_ok w"
  "connects (snd (open_clientfd host port w)) = connects w"
  "parser (snd (open_clientfd host port w)) = parser w"
  by (simp_all add: open_clientfd_def)

lemma next_ok_open_clientfd [simp]: "next_ok (snd (open_clientfd host port w)) fd = next_ok w fd"
  by (simp add: next_ok_def)

lemma clienterror_trace:
  "trace (clienterror MAXLINE MAXBUF fd errnum shortmsg longmsg w) =
     trace w @
     (if MAXBUF \<le> length (error_body errnum shortmsg longmsg) \<or>
         MAXLINE \<le> length (error_headers errnum shortmsg (length (error_body errnum shortmsg longmsg)))
      then []
      else Rio_writen fd (error_headers errnum shortmsg (length (error_body errnum shortmsg longmsg)))
             (next_ok w fd) #
           (if next_ok w fd
            then [Rio_writen fd (error_body errnum shortmsg longmsg)
                    (next_ok (snd (rio_writen fd
                       (error_headers errnum shortmsg (length (error_body errnum shortmsg longmsg))) w)) fd)]
            else []))"
  by (auto simp add: clienterror_def snprintf_def Let_def case_prod_beta)

lemma relay_left_Nil [simp]: "relay_left ls [] = []"
  by (cases ls) simp_all

lemma relay_events_Cons:
  "relay_events (l # ls) oks =
     (if (case oks of [] \<Rightarrow> True | ok # _ \<Rightarrow> ok)
      then Rio_writen Server l True # relay_events ls (tl oks)
      else [Rio_writen Server l False, Close Server])"
  by (cases oks) simp_all

lemma relay_ok_Cons:
  "relay_ok (l # ls) oks = ((case oks of [] \<Rightarrow> True | ok # _ \<Rightarrow> ok) \<and> relay_ok ls (tl oks))"
  by (cases oks) simp_all

lemma relay_left_Cons:
  "relay_left (l # ls) oks =
     (if (case oks of [] \<Rightarrow> True | ok # _ \<Rightarrow> ok) then relay_left ls (tl oks) else tl oks)"
  by (cases oks) simp_all

lemma relay_events_append:
  "relay_events (xs @ ys) oks =
     (if relay_ok xs oks then relay_events xs oks @ relay_events ys (relay_left xs oks)
      else relay_events xs oks)"
  by (induction xs oks rule: relay_events.induct) (simp_all add: relay_events_Cons)

lemma relay_ok_append:
  "relay_ok (xs @ ys) oks = (relay_ok xs oks \<and> relay_ok ys (relay_left xs oks))"
  by (induction xs oks rule: relay_events.induct) (simp_all add: relay_ok_Cons)

lemma loop_events_cong:
  "server_bytes w = server_bytes w' \<Longrightarrow> server_fatal w = server_fatal w' \<Longrightarrow>
   write_ok w Client = write_ok w' Client \<Longrightarrow>
   loop_events MAXLINE w = loop_events MAXLINE w'"
proof (induction w arbitrary: w' rule: loop_induct [where MAXLINE = MAXLINE])
  case (fatal w)
  then show ?case
    by (subst (1 2) loop_events_unfold) simp
next
  case (eof w)
  then show ?case
    by (subst (1 2) loop_events_unfold) simp
next
  case (failed w)
  then show ?case
    by (subst (1 2) loop_events_unfold) (simp add: next_ok_def)
next
  case (step w)
  let ?c = "take MAXLINE (server_bytes w)"
  have nf': "\<not> (server_bytes w' = [] \<and> server_fatal w')"
    using step.hyps(1) step.prems by simp
  have "loop_events MAXLINE (snd (rio_writen Client ?c (snd (rio_readnb MAXLINE w)))) =
        loop_events MAXLINE (snd (rio_writen Client ?c (snd (rio_readnb MAXLINE w'))))"
    using step.prems step.hyps(1) nf' by (intro step.IH) (simp_all add: rio_readnb_bytes)
  moreover have "next_ok w' Client = next_ok w Client"
    using step.prems by (simp add: next_ok_def)
  ultimately show ?case
    using step.prems step.hyps
    by (subst (1 2) loop_events_unfold) simp
qed

lemma response_loop_cong:
  "server_bytes w = server_bytes w' \<Longrightarrow> server_fatal w = server_fatal w' \<Longrightarrow>
   write_ok w Client = write_ok w' Client \<Longrightarrow>
   fst (response_loop MAXLINE w) = fst (response_loop MAXLINE w')"
proof (induction w arbitrary: w' rule: loop_induct [where MAXLINE = MAXLINE])
  case (fatal w)
  then show ?case
    by (subst (1 2) response_loop_unfold) simp
next
  case (eof w)
  then show ?case
    by (subst (1 2) response_loop_unfold) simp
next
  case (failed w)
  then show ?case
    by (subst (1 2) response_loop_unfold) (simp add: next_ok_def)
next
  case (step w)
  let ?c = "take MAXLINE (server_bytes w)"
  have nf': "\<not> (server_bytes w' = [] \<and> server_fatal w')"
    using step.hyps(1) step.prems by simp
  have "fst (response_loop MAXLINE (snd (rio_writen Client ?c (snd (rio_readnb MAXLINE w))))) =
        fst (response_loop MAXLINE (snd (rio_writen Client ?c (snd (rio_readnb MAXLINE w')))))"
    using step.prems step.hyps(1) nf' by (intro step.IH) (simp_all add: rio_readnb_bytes)
  moreover have "next_ok w' Client = next_ok w Client"
    using step.prems by (simp add: next_ok_def)
  ultimately show ?case
    using step.prems step.hyps
    by (subst (1 2) response_loop_unfold) simp
qed

lemma request_forward:
  "request MAXLINE MAXBUF w0 =
     (let w1 = parser_new w0
      in case rio_readlineb [] w1 of
        ((n, buf), w2) \<Rightarrow>
          if n = 0 then parser_free w2
          else
            case parser w2 buf of
              (state, field) \<Rightarrow>
                if state \<noteq> REQUEST then parser_free w2
                else
                  case (field METHOD, field URI, field HTTP_VERSION) of
                    (Some method, Some uri, Some vers) \<Rightarrow>
                      if method \<noteq> ''GET'' then
                        parser_free
                          (clienterror MAXLINE MAXBUF Client ''501'' ''Not Implemented''
                             ''Tiny does not implement this method'' w2)
                      else
                        (case processUri MAXLINE uri of
                           None \<Rightarrow> emit Undefined_behaviour w2
                         | Some (path, host, port) \<Rightarrow>
                             case open_clientfd host port w2 of
                               (connected, w3) \<Rightarrow>
                                 if \<not> connected then parser_free w3
                                 else forward MAXLINE path host port w3)
                  | _ \<Rightarrow> parser_free w2)"
  by (simp only: request_def forward_def respond_def)

lemma request_line_None:
  "request_line w = None \<Longrightarrow> trace (request MAXLINE MAXBUF w) = trace w @ [Parser_new, Parser_free]"
  by (auto simp add: request_line_def request_forward Let_def case_prod_beta rio_readlineb_fst
           split: list.splits option.splits if_splits)


lemma forward_long_request:
  assumes "MAXLINE \<le> length (''GET '' @ path @ '' HTTP/1.0'' @ CRLF)"
  shows "trace (forward MAXLINE path host port w) =
           trace w @ [Rio_writen Server (take (MAXLINE - 1) (''GET '' @ path @ '' HTTP/1.0'' @ CRLF))
                        (next_ok w Server),
                      Close Server, Parser_free]"
  using assms by (simp add: forward_def snprintf_def Let_def case_prod_beta)

lemma forward_long_host:
  assumes "length (''GET '' @ path @ '' HTTP/1.0'' @ CRLF) < MAXLINE"
    and "MAXLINE \<le> length (''Host: '' @ host @ '':'' @ port @ CRLF)"
  shows "trace (forward MAXLINE path host port w) =
           trace w @ [Rio_writen Server (''GET '' @ path @ '' HTTP/1.0'' @ CRLF) (next_ok w Server),
                      Close Server, Parser_free]"
  using assms by (simp add: forward_def snprintf_def Let_def case_prod_beta)

lemma forwarded_read:
  "client_lines w' = client_lines w \<Longrightarrow>
   forwarded (fst (rio_readlineb buf w') # tl (client_lines w)) = forwarded (client_lines w)"
  using forwarded_next [of buf w'] by simp

lemma respond_trace:
  "trace (respond MAXLINE hostline w) =
     trace w @
     relay_events (forwarded (client_lines w) @ [CRLF]) (write_ok w Server) @
     (if relay_ok (forwarded (client_lines w) @ [CRLF]) (write_ok w Server)
      then loop_events MAXLINE w @
           (if fst (response_loop MAXLINE w) then [Close Server, Parser_free] else [])
      else [Parser_free])"
proof -
  let ?r = "rio_readlineb hostline w"
  let ?w10 = "snd (readLine (snd (fst ?r)) (fst (fst ?r)) (snd ?r))"
  let ?w11 = "snd (rio_writen Server CRLF ?w10)"
  have l1: "loop_events MAXLINE ?w11 = loop_events MAXLINE w"
    by (rule loop_events_cong) simp_all
  have l2: "fst (response_loop MAXLINE ?w11) = fst (response_loop MAXLINE w)"
    by (rule response_loop_cong) simp_all
  have fw: "forwarded (fst ?r # tl (client_lines w)) = forwarded (client_lines w)"
    using forwarded_next [of hostline w] by simp
  show ?thesis
    by (simp add: respond_def case_prod_beta l1 l2 fw relay_events_append relay_ok_append
          relay_events_Cons relay_ok_Cons next_ok_def)
qed


lemma forward_trace:
  assumes "length (''GET '' @ path @ '' HTTP/1.0'' @ CRLF) < MAXLINE"
    and "length (''Host: '' @ host @ '':'' @ port @ CRLF) < MAXLINE"
  shows "trace (forward MAXLINE path host port w) =
           trace w @
           relay_events ((''GET '' @ path @ '' HTTP/1.0'' @ CRLF) # injected host port @
                         forwarded (client_lines w) @ [CRLF]) (write_ok w Server) @
           (if relay_ok ((''GET '' @ path @ '' HTTP/1.0'' @ CRLF) # injected host port @
                         forwarded (client_lines w) @ [CRLF]) (write_ok w Server)
            then loop_events MAXLINE w @
                 (if fst (response_loop MAXLINE w) then [Close Server, Parser_free] else [])
            else [Parser_free])"
proof -
  let ?req = "''GET '' @ path @ '' HTTP/1.0'' @ CRLF"
  let ?hostline = "''Host: '' @ host @ '':'' @ port @ CRLF"
  let ?w8 = "snd (rio_writen Server (''Proxy-Connection: close'' @ CRLF)
               (snd (rio_writen Server (''Connection: close'' @ CRLF)
                 (snd (rio_writen Server header_user_agent
                   (snd (rio_writen Server ?hostline
                     (snd (rio_writen Server ?req w)))))))))"
  have s1: "snprintf MAXLINE ?req = (?req, length ?req)"
    using assms(1) by (simp add: snprintf_def)
  have s2: "snprintf MAXLINE ?hostline = (?hostline, length ?hostline)"
    using assms(2) by (simp add: snprintf_def)
  have le: "\<not> MAXLINE \<le> length ?req" "\<not> MAXLINE \<le> length ?hostline"
    using assms by simp_all
  have l1: "loop_events MAXLINE ?w8 = loop_events MAXLINE w"
    by (rule loop_events_cong) simp_all
  have l2: "fst (response_loop MAXLINE ?w8) = fst (response_loop MAXLINE w)"
    by (rule response_loop_cong) simp_all
  have r: "trace (respond MAXLINE ?hostline ?w8) =
             trace ?w8 @
             relay_events (forwarded (client_lines w) @ [CRLF])
               (tl (tl (tl (tl (tl (write_ok w Server)))))) @
             (if relay_ok (forwarded (client_lines w) @ [CRLF])
                   (tl (tl (tl (tl (tl (write_ok w Server))))))
              then loop_events MAXLINE w @
                   (if fst (response_loop MAXLINE w) then [Close Server, Parser_free] else [])
              else [Parser_free])"
    by (simp only: respond_trace l1 l2) simp
  show ?thesis
    apply (simp only: forward_def s1 s2 Let_def case_prod_beta prod.sel le simp_thms
        if_distrib [of trace] r)
    apply (simp add: injected_def relay_events_Cons relay_ok_Cons next_ok_def)
    done
qed


lemma rio_readlineb_parser_new [simp]:
  "fst (rio_readlineb buf (parser_new w)) = fst (rio_readlineb buf w)"
  by (simp add: rio_readlineb_fst)

lemma request_line_SomeD:
  assumes "request_line w = Some (method, uri, vers)"
  shows "fst (fst (rio_readlineb buf w)) \<noteq> 0"
    and "fst (parser w (snd (fst (rio_readlineb buf w)))) = REQUEST"
    and "snd (parser w (snd (fst (rio_readlineb buf w)))) METHOD = Some method"
    and "snd (parser w (snd (fst (rio_readlineb buf w)))) URI = Some uri"
    and "snd (parser w (snd (fst (rio_readlineb buf w)))) HTTP_VERSION = Some vers"
  using assms
  by (auto simp add: request_line_def rio_readlineb_fst split: list.splits option.splits if_splits)

lemma request_other_method:
  assumes "request_line w = Some (method, uri, vers)" and "method \<noteq> ''GET''"
  shows "trace (request MAXLINE MAXBUF w) =
           trace (clienterror MAXLINE MAXBUF Client ''501'' ''Not Implemented''
                    ''Tiny does not implement this method''
                    (snd (rio_readlineb [] (parser_new w)))) @ [Parser_free]"
  using request_line_SomeD [OF assms(1), of "[]"] assms(2)
  by (simp add: request_forward Let_def case_prod_beta)

lemma request_get:
  assumes "request_line w = Some (''GET'', uri, vers)"
  shows "trace (request MAXLINE MAXBUF w) =
           (case processUri MAXLINE uri of
              None \<Rightarrow> trace w @ [Parser_new, Undefined_behaviour]
            | Some (path, host, port) \<Rightarrow>
                if connects w host port
                then trace (forward MAXLINE path host port
                       (snd (open_clientfd host port (snd (rio_readlineb [] (parser_new w))))))
                else trace w @ [Parser_new, Open_clientfd host port False, Parser_free])"
  using request_line_SomeD [OF assms, of "[]"]
  by (simp add: request_forward Let_def case_prod_beta split: option.splits)


lemma writes_append [simp]: "writes fd (xs @ ys) = writes fd xs @ writes fd ys"
  by (induction fd xs rule: writes.induct) auto

lemma delivered_append [simp]: "delivered fd (xs @ ys) = delivered fd xs @ delivered fd ys"
  by (induction fd xs rule: delivered.induct) auto

lemma delivered_relay_client [simp]: "delivered Client (relay_events ls oks) = []"
  by (induction ls oks rule: relay_events.induct) auto

lemma count_relay_free [simp]: "count_list (relay_events ls oks) Parser_free = 0"
  by (induction ls oks rule: relay_events.induct) auto

lemma count_relay_close:
  "count_list (relay_events ls oks) (Close Server) = (if relay_ok ls oks then 0 else 1)"
  by (induction ls oks rule: relay_events.induct) auto

lemma relay_fail_last:
  "\<not> relay_ok ls oks \<Longrightarrow> \<exists>pre. relay_events ls oks = pre @ [Close Server]"
proof (induction ls oks rule: relay_events.induct)
  case (1 oks)
  then show ?case by simp
next
  case (2 l ls)
  then show ?case by simp
next
  case (3 l ls ok oks)
  show ?case
  proof (cases ok)
    case True
    then obtain pre where "relay_events ls oks = pre @ [Close Server]"
      using 3 by auto
    then have "relay_events (l # ls) (ok # oks) = (Rio_writen Server l True # pre) @ [Close Server]"
      using True by simp
    then show ?thesis by blast
  next
    case False
    then have "relay_events (l # ls) (ok # oks) = [Rio_writen Server l False] @ [Close Server]"
      by simp
    then show ?thesis by blast
  qed
qed

lemma client_only:
  assumes "\<forall>e\<in>set evs. e = Undefined_behaviour \<or> (\<exists>s ok. e = Rio_writen Client s ok \<and> P s)"
  shows "writes Server evs = []" and "count_list evs (Close Server) = 0"
    and "count_list evs Parser_free = 0" and "\<not> list_ex origin_event evs"
    and "\<forall>s\<in>set (writes Client evs). P s"
  using assms by (induction evs) auto

lemmas loop_client_only = client_only [OF loop_shape]

lemma loop_no_ub: "fst (response_loop MAXLINE w) \<Longrightarrow> Undefined_behaviour \<notin> set (loop_events MAXLINE w)"
proof (induction w rule: loop_induct [where MAXLINE = MAXLINE])
  case (fatal w)
  then show ?case by (subst (asm) response_loop_unfold) simp
next
  case (eof w)
  then show ?case by (subst loop_events_unfold) simp
next
  case (failed w)
  then show ?case by (subst loop_events_unfold) simp
next
  case (step w)
  from step.prems step.hyps have
    "fst (response_loop MAXLINE
       (snd (rio_writen Client (take MAXLINE (server_bytes w)) (snd (rio_readnb MAXLINE w)))))"
    by (subst (asm) response_loop_unfold) simp
  then show ?case
    using step.IH step.hyps by (subst loop_events_unfold) simp
qed

lemma events_get:
  assumes "request_line w = Some (''GET'', uri, vers)"
    and "processUri MAXLINE uri = Some (path, host, port)"
    and "connects w host port"
    and "length (''GET '' @ path @ '' HTTP/1.0'' @ CRLF) < MAXLINE"
    and "length (''Host: '' @ host @ '':'' @ port @ CRLF) < MAXLINE"
  shows "events MAXLINE MAXBUF w =
           [Parser_new, Open_clientfd host port True] @
           relay_events ((''GET '' @ path @ '' HTTP/1.0'' @ CRLF) # injected host port @
                         forwarded (tl (client_lines w)) @ [CRLF]) (write_ok w Server) @
           (if relay_ok ((''GET '' @ path @ '' HTTP/1.0'' @ CRLF) # injected host port @
                         forwarded (tl (client_lines w)) @ [CRLF]) (write_ok w Server)
            then loop_events MAXLINE w @
                 (if fst (response_loop MAXLINE w) then [Close Server, Parser_free] else [])
            else [Parser_free])"
proof -
  let ?w3 = "snd (open_clientfd host port (snd (rio_readlineb [] (parser_new w))))"
  have l1: "loop_events MAXLINE ?w3 = loop_events MAXLINE w"
    by (rule loop_events_cong) simp_all
  have l2: "fst (response_loop MAXLINE ?w3) = fst (response_loop MAXLINE w)"
    by (rule response_loop_cong) simp_all
  have "trace (request MAXLINE MAXBUF w) = trace (forward MAXLINE path host port ?w3)"
    using assms(2,3) by (simp add: request_get [OF assms(1)])
  then show ?thesis
    using assms(3)
    by (simp add: events_def new_events_def forward_trace [OF assms(4,5)] l1 l2)
qed

section \<open>Claims on the Connection Handler\<close>

text \<open>
  C8. When the first read yields nothing, or the first line is not accepted as a request
  line with method, URI and version, the handler only creates and frees the parser:
  nothing is written to the client and nothing happens on the origin side.
\<close>

theorem silent_abort:
  assumes "request_line w = None"
  shows "events MAXLINE MAXBUF w = [Parser_new, Parser_free] \<and>
         writes Client (events MAXLINE MAXBUF w) = [] \<and>
         \<not> list_ex origin_event (events MAXLINE MAXBUF w)"
  using request_line_None [OF assms, of MAXLINE MAXBUF]
  by (simp add: events_def new_events_def)

theorem silent_abort_witness:
  "request_line ((example_world ''GET'' ''http://example.com'')\<lparr>client_lines := []\<rparr>) = None \<and>
   events 8192 8192 ((example_world ''GET'' ''http://example.com'')\<lparr>client_lines := []\<rparr>) =
     [Parser_new, Parser_free] \<and>
   request_line ((example_world ''GET'' ''http://example.com'')
                   \<lparr>parser := (\<lambda>line. (NOT_REQUEST, \<lambda>f. None))\<rparr>) = None \<and>
   events 8192 8192 ((example_world ''GET'' ''http://example.com'')
                       \<lparr>parser := (\<lambda>line. (NOT_REQUEST, \<lambda>f. None))\<rparr>) =
     [Parser_new, Parser_free]"
proof -
  have h: "request_line ((example_world ''GET'' ''http://example.com'')\<lparr>client_lines := []\<rparr>) = None"
    by (simp add: request_line_def)
  have k: "request_line ((example_world ''GET'' ''http://example.com'')
                           \<lparr>parser := (\<lambda>line. (NOT_REQUEST, \<lambda>f. None))\<rparr>) = None"
    by (simp add: request_line_def example_world_def)
  show ?thesis
    using h k silent_abort [OF h, of 8192 8192] silent_abort [OF k, of 8192 8192] by blast
qed

lemma response_501_head_eq:
  "error_headers ''501'' ''Not Implemented'' (length response_501_body) = response_501_head"
  by (simp add: error_headers_def response_501_head_def response_501_body_def CRLF_def DQUOTE_def
        zu.simps digit_def)

lemma response_501_body_eq:
  "error_body ''501'' ''Not Implemented'' ''Tiny does not implement this method'' = response_501_body"
  by (simp add: error_body_def response_501_body_def)

lemma response_501_lengths:
  "length response_501_body = 217" "length response_501_head = 78"
  by (simp_all add: response_501_head_def response_501_body_def CRLF_def DQUOTE_def)

text \<open>
  C4. For a request line whose method is not \<open>GET\<close>, the handler writes the head of the
  501 response to the client and, when that write succeeds, its body, then frees the
  parser and returns; a client on which no write fails receives exactly head and body.
  The head announces the length of the body, the body holds the two messages, and
  nothing happens on the origin side. (The buffers must hold the response: 217 and 78
  characters.)
\<close>

theorem not_implemented:
  assumes "request_line w = Some (method, uri, vers)" and "method \<noteq> ''GET''"
    and "length response_501_body < MAXBUF" and "length response_501_head < MAXLINE"
  shows "(\<exists>ok1 ok2. events MAXLINE MAXBUF w =
            Parser_new # Rio_writen Client response_501_head ok1 #
            (if ok1 then [Rio_writen Client response_501_body ok2] else []) @ [Parser_free]) \<and>
         ((\<forall>ok\<in>set (write_ok w Client). ok) \<longrightarrow>
            delivered Client (events MAXLINE MAXBUF w) = response_501_head @ response_501_body) \<and>
         \<not> list_ex origin_event (events MAXLINE MAXBUF w) \<and>
         response_501_head =
           ''HTTP/1.0 501 Not Implemented'' @ CRLF @ ''Content-Type: text/html'' @ CRLF @
           ''Content-Length: '' @ zu (length response_501_body) @ CRLF @ CRLF \<and>
         sublist ''<h1>501: Not Implemented</h1>'' response_501_body \<and>
         sublist ''<p>Tiny does not implement this method</p>'' response_501_body"
proof -
  let ?w2 = "snd (rio_readlineb [] (parser_new w))"
  let ?ok1 = "next_ok w Client"
  let ?ok2 = "next_ok (snd (rio_writen Client response_501_head ?w2)) Client"
  have ev: "events MAXLINE MAXBUF w =
              Parser_new # Rio_writen Client response_501_head ?ok1 #
              (if ?ok1 then [Rio_writen Client response_501_body ?ok2] else []) @ [Parser_free]"
    using assms(3,4)
    by (simp add: events_def new_events_def request_other_method [OF assms(1,2)] clienterror_trace
          response_501_body_eq response_501_head_eq)
  have all: "?ok1 \<and> ?ok2" if "\<forall>ok\<in>set (write_ok w Client). ok"
    using that by (cases "write_ok w Client"; cases "tl (write_ok w Client)") (auto simp: next_ok_def)
  have b1: "response_501_body =
              (''<!DOCTYPE html>'' @ CRLF @ ''<html>'' @ CRLF @
               ''<head><title>Tiny Error</title></head>'' @ CRLF @
               ''<body bgcolor='' @ DQUOTE @ ''ffffff'' @ DQUOTE @ ''>'' @ CRLF) @
              ''<h1>501: Not Implemented</h1>'' @
              (CRLF @ ''<p>Tiny does not implement this method</p>'' @ CRLF @
               ''<hr /><em>The Tiny Web server</em>'' @ CRLF @ ''</body></html>'' @ CRLF)"
    by (simp add: response_501_body_def)
  have b2: "response_501_body =
              (''<!DOCTYPE html>'' @ CRLF @ ''<html>'' @ CRLF @
               ''<head><title>Tiny Error</title></head>'' @ CRLF @
               ''<body bgcolor='' @ DQUOTE @ ''ffffff'' @ DQUOTE @ ''>'' @ CRLF @
               ''<h1>501: Not Implemented</h1>'' @ CRLF) @
              ''<p>Tiny does not implement this method</p>'' @
              (CRLF @ ''<hr /><em>The Tiny Web server</em>'' @ CRLF @ ''</body></html>'' @ CRLF)"
    by (simp add: response_501_body_def)
  have s1: "sublist ''<h1>501: Not Implemented</h1>'' response_501_body"
    by (subst b1) (rule sublist_appendI)
  have s2: "sublist ''<p>Tiny does not implement this method</p>'' response_501_body"
    by (subst b2) (rule sublist_appendI)
  have hd: "response_501_head =
           ''HTTP/1.0 501 Not Implemented'' @ CRLF @ ''Content-Type: text/html'' @ CRLF @
           ''Content-Length: '' @ zu (length response_501_body) @ CRLF @ CRLF"
    using response_501_head_eq by (simp add: error_headers_def)
  have dl: "delivered Client (events MAXLINE MAXBUF w) = response_501_head @ response_501_body"
    if "\<forall>ok\<in>set (write_ok w Client). ok"
    using all [OF that] by (simp add: ev)
  have no: "\<not> list_ex origin_event (events MAXLINE MAXBUF w)"
    by (simp add: ev)
  from ev have "\<exists>ok1 ok2. events MAXLINE MAXBUF w =
            Parser_new # Rio_writen Client response_501_head ok1 #
            (if ok1 then [Rio_writen Client response_501_body ok2] else []) @ [Parser_free]"
    by blast
  with dl no hd s1 s2 show ?thesis
    by blast
qed


lemma example_request_line:
  "request_line (example_world method uri) = Some (method, uri, ''HTTP/1.1'')"
  by (simp add: request_line_def example_world_def fixed_parser_def)

lemma example_writes_ok: "\<forall>ok\<in>set (write_ok (example_world method uri) fd). ok"
  by (simp add: example_world_def)

theorem not_implemented_witness:
  "request_line (example_world ''POST'' ''http://example.com'') =
     Some (''POST'', ''http://example.com'', ''HTTP/1.1'') \<and>
   delivered Client (events 8192 8192 (example_world ''POST'' ''http://example.com'')) =
     response_501_head @ response_501_body"
proof -
  let ?w = "example_world ''POST'' ''http://example.com''"
  have h1: "request_line ?w = Some (''POST'', ''http://example.com'', ''HTTP/1.1'')"
    by (rule example_request_line)
  have h2: "''POST'' \<noteq> ''GET''"
    by simp
  have h3: "length response_501_body < 8192" and h4: "length response_501_head < 8192"
    by (simp_all add: response_501_lengths)
  show ?thesis
    using h1 not_implemented [OF h1 h2 h3 h4] example_writes_ok [of "''POST''" "''http://example.com''" Client]
    by blast
qed

text \<open>
  C6, as the code has it. For a \<open>GET\<close> request whose origin connection is open, the
  first thing the handler does is write the request line \<open>GET <path> HTTP/1.0\<close> to the
  origin, with the decomposed path as it is (nothing is put in place of an empty path),
  cut to \<open>MAXLINE - 1\<close> characters when it is longer; when the line has \<open>MAXLINE\<close> or
  more characters, or the write fails, the handler closes the origin socket, frees the
  parser and returns.
\<close>

theorem request_line_written:
  assumes "request_line w = Some (''GET'', uri, vers)"
    and "processUri MAXLINE uri = Some (path, host, port)"
    and "connects w host port"
  shows "\<exists>rest. events MAXLINE MAXBUF w =
           Parser_new # Open_clientfd host port True #
           Rio_writen Server (take (MAXLINE - 1) (''GET '' @ path @ '' HTTP/1.0'' @ CRLF))
             (next_ok w Server) # rest \<and>
           (MAXLINE \<le> length (''GET '' @ path @ '' HTTP/1.0'' @ CRLF) \<or> \<not> next_ok w Server \<longrightarrow>
              rest = [Close Server, Parser_free])"
proof -
  let ?line = "''GET '' @ path @ '' HTTP/1.0'' @ CRLF"
  let ?hostline = "''Host: '' @ host @ '':'' @ port @ CRLF"
  let ?w3 = "snd (open_clientfd host port (snd (rio_readlineb [] (parser_new w))))"
  have tr: "trace (request MAXLINE MAXBUF w) = trace (forward MAXLINE path host port ?w3)"
    using assms(2,3) by (simp add: request_get [OF assms(1)])
  show ?thesis
  proof (cases "MAXLINE \<le> length ?line")
    case True
    then show ?thesis
      using assms(3) by (simp add: events_def new_events_def tr forward_long_request)
  next
    case fits: False
    then have take: "take (MAXLINE - 1) ?line = ?line"
      by simp
    show ?thesis
    proof (cases "MAXLINE \<le> length ?hostline")
      case True
      then show ?thesis
        using assms(3) fits
        by (simp only: take) (simp add: events_def new_events_def tr forward_long_host)
    next
      case False
      have ev: "events MAXLINE MAXBUF w =
                  [Parser_new, Open_clientfd host port True] @
                  relay_events (?line # injected host port @ forwarded (tl (client_lines w)) @ [CRLF])
                    (write_ok w Server) @
                  (if relay_ok (?line # injected host port @ forwarded (tl (client_lines w)) @ [CRLF])
                        (write_ok w Server)
                   then loop_events MAXLINE w @
                        (if fst (response_loop MAXLINE w) then [Close Server, Parser_free] else [])
                   else [Parser_free])"
        using fits False by (intro events_get [OF assms]) simp_all
      show ?thesis
        using fits
        by (simp only: take ev) (simp add: relay_events_Cons relay_ok_Cons next_ok_def)
    qed
  qed
qed


lemma server_writes_get:
  assumes "request_line w = Some (''GET'', uri, vers)"
    and "processUri MAXLINE uri = Some (path, host, port)"
    and "connects w host port"
    and "length (''GET '' @ path @ '' HTTP/1.0'' @ CRLF) < MAXLINE"
    and "length (''Host: '' @ host @ '':'' @ port @ CRLF) < MAXLINE"
    and "\<forall>ok\<in>set (write_ok w Server). ok"
  shows "writes Server (events MAXLINE MAXBUF w) =
           (''GET '' @ path @ '' HTTP/1.0'' @ CRLF) # injected host port @
           forwarded (tl (client_lines w)) @ [CRLF]"
proof -
  let ?ls = "(''GET '' @ path @ '' HTTP/1.0'' @ CRLF) # injected host port @
             forwarded (tl (client_lines w)) @ [CRLF]"
  have ok: "relay_ok ?ls (write_ok w Server)"
    using assms(6) by (rule relay_ok_all)
  have "writes Server (relay_events ?ls (write_ok w Server)) = ?ls"
    using ok by (rule writes_relay_all)
  then show ?thesis
    using ok by (simp add: events_get [OF assms(1-5)] loop_client_only(1))
qed

lemma example_uri1:
  "processUri 8192 ''http://example.com:8080/a/b'' = Some (''/a/b'', ''example.com'', ''8080'')"
proof -
  have "length ''http://example.com:8080/a/b'' < 8192"
    by simp
  moreover have "''http://example.com:8080/a/b'' = ''http://'' @ ''example.com:8080/a/b''"
    by simp
  ultimately have "processUri 8192 ''http://example.com:8080/a/b'' =
                     Some (decompose_spec ''example.com:8080/a/b'')"
    by (rule processUri_decompose)
  then show ?thesis
    by (simp only: decompose_example)
qed

lemma example_uri2:
  "processUri 8192 ''http://example.com'' = Some ([], ''example.com'', ''80'')"
proof -
  have "length ''http://example.com'' < 8192"
    by simp
  moreover have "''http://example.com'' = ''http://'' @ ''example.com''"
    by simp
  ultimately have "processUri 8192 ''http://example.com'' = Some (decompose_spec ''example.com'')"
    by (rule processUri_decompose)
  moreover have "decompose_spec ''example.com'' = ([], ''example.com'', ''80'')"
    by (simp add: decompose_spec_def host_char_def)
  ultimately show ?thesis
    by (simp only:)
qed

lemma example_connects: "connects (example_world method uri) host port"
  by (simp add: example_world_def)

lemma example_lengths:
  "length (''GET '' @ ''/a/b'' @ '' HTTP/1.0'' @ CRLF) < 8192"
  "length (''Host: '' @ ''example.com'' @ '':'' @ ''8080'' @ CRLF) < 8192"
  by (simp_all add: CRLF_def)

lemma example_request_line_upd:
  "request_line ((example_world method uri)\<lparr>write_ok := f\<rparr>) = Some (method, uri, ''HTTP/1.1'')"
  by (simp add: request_line_def example_world_def fixed_parser_def)

lemma example_forwarded:
  "forwarded (tl (client_lines (example_world method uri))) = [''Accept: */*'' @ CRLF]"
  by (simp add: example_world_def forwarded_def header_lines_def c_str_def NUL_def
      blacklisted_def blacklist_def CRLF_def)

lemma example_forwarded_spec:
  "forwarded_spec (tl (client_lines (example_world method uri))) = [''Accept: */*'' @ CRLF]"
  by (simp add: example_world_def forwarded_spec_def blacklisted_def blacklist_def CRLF_def)

lemma example_server_writes:
  assumes "processUri 8192 uri = Some (path, host, port)"
    and "length (''GET '' @ path @ '' HTTP/1.0'' @ CRLF) < 8192"
    and "length (''Host: '' @ host @ '':'' @ port @ CRLF) < 8192"
  shows "writes Server (events 8192 8192 (example_world ''GET'' uri)) =
           (''GET '' @ path @ '' HTTP/1.0'' @ CRLF) # injected host port @
           [''Accept: */*'' @ CRLF, CRLF]"
  using server_writes_get [OF example_request_line assms(1) example_connects assms(2,3) example_writes_ok,
      of 8192]
  by (simp add: example_forwarded)

theorem request_line_written_counterexample:
  "processUri 8192 ''http://example.com'' = Some ([], ''example.com'', ''80'') \<and>
   hd (writes Server (events 8192 8192 (example_world ''GET'' ''http://example.com''))) =
     ''GET  HTTP/1.0'' @ CRLF \<and>
   hd (writes Server (events 8192 8192 (example_world ''GET'' ''http://example.com''))) \<noteq>
     request_line_spec []"
proof -
  have "writes Server (events 8192 8192 (example_world ''GET'' ''http://example.com'')) =
          (''GET '' @ [] @ '' HTTP/1.0'' @ CRLF) # injected ''example.com'' ''80'' @
          [''Accept: */*'' @ CRLF, CRLF]"
    by (rule example_server_writes [OF example_uri2]) (simp_all add: CRLF_def)
  then show ?thesis
    by (simp add: example_uri2 request_line_spec_def)
qed

theorem request_line_written_witness:
  "request_line (example_world ''GET'' ''http://example.com:8080/a/b'') =
     Some (''GET'', ''http://example.com:8080/a/b'', ''HTTP/1.1'') \<and>
   processUri 8192 ''http://example.com:8080/a/b'' = Some (''/a/b'', ''example.com'', ''8080'') \<and>
   connects (example_world ''GET'' ''http://example.com:8080/a/b'') ''example.com'' ''8080'' \<and>
   (\<exists>rest. events 8192 8192 (example_world ''GET'' ''http://example.com:8080/a/b'') =
      Parser_new # Open_clientfd ''example.com'' ''8080'' True #
      Rio_writen Server (''GET /a/b HTTP/1.0'' @ CRLF) True # rest) \<and>
   events 8192 8192
     ((example_world ''GET'' ''http://example.com:8080/a/b'')\<lparr>write_ok := (\<lambda>fd. [False])\<rparr>) =
     [Parser_new, Open_clientfd ''example.com'' ''8080'' True,
      Rio_writen Server (''GET /a/b HTTP/1.0'' @ CRLF) False, Close Server, Parser_free]"
proof -
  let ?w = "example_world ''GET'' ''http://example.com:8080/a/b''"
  let ?v = "?w\<lparr>write_ok := (\<lambda>fd. [False])\<rparr>"
  have h1: "request_line ?w = Some (''GET'', ''http://example.com:8080/a/b'', ''HTTP/1.1'')"
    by (rule example_request_line)
  have h3: "connects ?w ''example.com'' ''8080''"
    by (rule example_connects)
  have t: "take (8192 - 1) (''GET '' @ ''/a/b'' @ '' HTTP/1.0'' @ CRLF) = ''GET /a/b HTTP/1.0'' @ CRLF"
    by (simp add: CRLF_def)
  have n: "next_ok ?w Server"
    by (simp add: next_ok_def example_world_def)
  obtain rest where
    "events 8192 8192 ?w =
       Parser_new # Open_clientfd ''example.com'' ''8080'' True #
       Rio_writen Server (take (8192 - 1) (''GET '' @ ''/a/b'' @ '' HTTP/1.0'' @ CRLF))
         (next_ok ?w Server) # rest"
    using request_line_written [OF h1 example_uri1 h3, of 8192] by blast
  then have a: "events 8192 8192 ?w =
       Parser_new # Open_clientfd ''example.com'' ''8080'' True #
       Rio_writen Server (''GET /a/b HTTP/1.0'' @ CRLF) True # rest"
    using n by (simp only: t simp_thms)
  have k1: "request_line ?v = Some (''GET'', ''http://example.com:8080/a/b'', ''HTTP/1.1'')"
    by (rule example_request_line_upd)
  have k3: "connects ?v ''example.com'' ''8080''"
    by (simp add: example_connects)
  have m: "\<not> next_ok ?v Server"
    by (simp add: next_ok_def)
  obtain rest' where
    "events 8192 8192 ?v =
       Parser_new # Open_clientfd ''example.com'' ''8080'' True #
       Rio_writen Server (take (8192 - 1) (''GET '' @ ''/a/b'' @ '' HTTP/1.0'' @ CRLF))
         (next_ok ?v Server) # rest'"
    and "8192 \<le> length (''GET '' @ ''/a/b'' @ '' HTTP/1.0'' @ CRLF) \<or> \<not> next_ok ?v Server \<longrightarrow>
         rest' = [Close Server, Parser_free]"
    using request_line_written [OF k1 example_uri1 k3, of 8192] by blast
  then have b: "events 8192 8192 ?v =
     [Parser_new, Open_clientfd ''example.com'' ''8080'' True,
      Rio_writen Server (''GET /a/b HTTP/1.0'' @ CRLF) False, Close Server, Parser_free]"
    using m by (simp only: t simp_thms)
  from h1 h3 example_uri1 a b show ?thesis
    by blast
qed


text \<open>
  C3, as the code has it. For a \<open>GET\<close> request on which nothing fails, the handler
  writes the injected headers to the origin right after the request line and before any
  header line of the client is read: the \<open>Host\<close> line made of the target's host and
  port, the fixed \<open>User-Agent\<close> line, \<open>Connection: close\<close> and
  \<open>Proxy-Connection: close\<close>, in this order. The client's header lines that pass the
  filter follow, and the blank line ends the request.
\<close>

theorem injected_headers_order:
  assumes "request_line w = Some (''GET'', uri, vers)"
    and "processUri MAXLINE uri = Some (path, host, port)"
    and "connects w host port"
    and "length (''GET '' @ path @ '' HTTP/1.0'' @ CRLF) < MAXLINE"
    and "length (''Host: '' @ host @ '':'' @ port @ CRLF) < MAXLINE"
    and "\<forall>ok\<in>set (write_ok w Server). ok"
  shows "writes Server (events MAXLINE MAXBUF w) =
           [''GET '' @ path @ '' HTTP/1.0'' @ CRLF] @
           [''Host: '' @ host @ '':'' @ port @ CRLF,
            header_user_agent,
            ''Connection: close'' @ CRLF,
            ''Proxy-Connection: close'' @ CRLF] @
           forwarded (tl (client_lines w)) @
           [CRLF]"
  using server_writes_get [OF assms, of MAXBUF] by (simp add: injected_def)

theorem injected_headers_order_counterexample:
  "writes Server (events 8192 8192 (example_world ''GET'' ''http://example.com:8080/a/b'')) =
     [''GET /a/b HTTP/1.0'' @ CRLF,
      ''Host: example.com:8080'' @ CRLF,
      header_user_agent,
      ''Connection: close'' @ CRLF,
      ''Proxy-Connection: close'' @ CRLF,
      ''Accept: */*'' @ CRLF,
      CRLF] \<and>
   writes Server (events 8192 8192 (example_world ''GET'' ''http://example.com:8080/a/b'')) \<noteq>
     origin_request_spec ''/a/b'' ''example.com'' ''8080''
       (tl (client_lines (example_world ''GET'' ''http://example.com:8080/a/b'')))"
proof -
  have "writes Server (events 8192 8192 (example_world ''GET'' ''http://example.com:8080/a/b'')) =
          (''GET '' @ ''/a/b'' @ '' HTTP/1.0'' @ CRLF) # injected ''example.com'' ''8080'' @
          [''Accept: */*'' @ CRLF, CRLF]"
    by (rule example_server_writes [OF example_uri1]) (simp_all add: CRLF_def)
  then show ?thesis
    by (simp add: origin_request_spec_def request_line_spec_def example_forwarded_spec injected_def
          header_user_agent_def CRLF_def)
qed

theorem injected_headers_order_witness:
  "request_line (example_world ''GET'' ''http://example.com:8080/a/b'') =
     Some (''GET'', ''http://example.com:8080/a/b'', ''HTTP/1.1'') \<and>
   processUri 8192 ''http://example.com:8080/a/b'' = Some (''/a/b'', ''example.com'', ''8080'') \<and>
   writes Server (events 8192 8192 (example_world ''GET'' ''http://example.com:8080/a/b'')) =
     [''GET /a/b HTTP/1.0'' @ CRLF,
      ''Host: example.com:8080'' @ CRLF,
      header_user_agent,
      ''Connection: close'' @ CRLF,
      ''Proxy-Connection: close'' @ CRLF,
      ''Accept: */*'' @ CRLF,
      CRLF]"
proof -
  let ?w = "example_world ''GET'' ''http://example.com:8080/a/b''"
  have h1: "request_line ?w = Some (''GET'', ''http://example.com:8080/a/b'', ''HTTP/1.1'')"
    by (rule example_request_line)
  have h3: "connects ?w ''example.com'' ''8080''"
    by (rule example_connects)
  have h4: "length (''GET '' @ ''/a/b'' @ '' HTTP/1.0'' @ CRLF) < 8192"
    and h5: "length (''Host: '' @ ''example.com'' @ '':'' @ ''8080'' @ CRLF) < 8192"
    by (simp_all add: CRLF_def)
  have h6: "\<forall>ok\<in>set (write_ok ?w Server). ok"
    by (rule example_writes_ok)
  have "writes Server (events 8192 8192 ?w) =
          [''GET '' @ ''/a/b'' @ '' HTTP/1.0'' @ CRLF] @
          [''Host: '' @ ''example.com'' @ '':'' @ ''8080'' @ CRLF,
           header_user_agent,
           ''Connection: close'' @ CRLF,
           ''Proxy-Connection: close'' @ CRLF] @
          forwarded (tl (client_lines ?w)) @
          [CRLF]"
    by (rule injected_headers_order [OF h1 example_uri1 h3 h4 h5 h6])
  then have "writes Server (events 8192 8192 ?w) =
     [''GET /a/b HTTP/1.0'' @ CRLF,
      ''Host: example.com:8080'' @ CRLF,
      header_user_agent,
      ''Connection: close'' @ CRLF,
      ''Proxy-Connection: close'' @ CRLF,
      ''Accept: */*'' @ CRLF,
      CRLF]"
    by (simp add: example_forwarded)
  with h1 example_uri1 show ?thesis
    by blast
qed

lemma loop_failed_last:
  "Rio_writen Client s False \<in> set (loop_events MAXLINE w) \<Longrightarrow>
   fst (response_loop MAXLINE w) \<and> (\<exists>pre. loop_events MAXLINE w = pre @ [Rio_writen Client s False])"
proof (induction w rule: loop_induct [where MAXLINE = MAXLINE])
  case (fatal w)
  then show ?case by (subst (asm) loop_events_unfold) simp
next
  case (eof w)
  then show ?case by (subst (asm) loop_events_unfold) (simp split: if_splits)
next
  case (failed w)
  from failed.prems failed.hyps have "s = take MAXLINE (server_bytes w)"
    by (subst (asm) loop_events_unfold) simp
  then have "loop_events MAXLINE w = [] @ [Rio_writen Client s False]"
    using failed.hyps by (subst loop_events_unfold) simp
  moreover have "fst (response_loop MAXLINE w)"
    using failed.hyps by (subst response_loop_unfold) simp
  ultimately show ?case by blast
next
  case (step w)
  let ?w2 = "snd (rio_writen Client (take MAXLINE (server_bytes w)) (snd (rio_readnb MAXLINE w)))"
  from step.prems step.hyps have "Rio_writen Client s False \<in> set (loop_events MAXLINE ?w2)"
    by (subst (asm) loop_events_unfold) simp
  then obtain pre where r: "fst (response_loop MAXLINE ?w2)"
    and p: "loop_events MAXLINE ?w2 = pre @ [Rio_writen Client s False]"
    using step.IH by blast
  have "loop_events MAXLINE w =
          (Rio_writen Client (take MAXLINE (server_bytes w)) True # pre) @ [Rio_writen Client s False]"
    using step.hyps p by (subst loop_events_unfold) simp
  moreover have "fst (response_loop MAXLINE w)"
    using step.hyps r by (subst response_loop_unfold) simp
  ultimately show ?case by blast
qed

lemma relay_no_client: "Rio_writen Client s ok \<notin> set (relay_events ls oks)"
  by (induction ls oks rule: relay_events.induct) auto

text \<open>
  C5. For a \<open>GET\<close> request whose request and headers reach the origin, the loop at the
  end of \<open>request\<close> passes the origin's bytes to the client in chunks of at most
  \<open>MAXLINE\<close> bytes: what the client receives is always an initial part of what the
  origin sends, and all of it, byte for byte, when no write to the client fails and the
  origin's stream ends in an orderly close. A write to the client that fails is the last
  one: the handler only releases its resources after it.
\<close>

theorem response_relayed:
  assumes "request_line w = Some (''GET'', uri, vers)"
    and "processUri MAXLINE uri = Some (path, host, port)"
    and "connects w host port"
    and "length (''GET '' @ path @ '' HTTP/1.0'' @ CRLF) < MAXLINE"
    and "length (''Host: '' @ host @ '':'' @ port @ CRLF) < MAXLINE"
    and "\<forall>ok\<in>set (write_ok w Server). ok"
  shows "prefix (delivered Client (events MAXLINE MAXBUF w)) (server_bytes w) \<and>
         ((\<forall>ok\<in>set (write_ok w Client). ok) \<and> \<not> server_fatal w \<longrightarrow>
            delivered Client (events MAXLINE MAXBUF w) = server_bytes w) \<and>
         (\<forall>s\<in>set (writes Client (events MAXLINE MAXBUF w)). 0 < length s \<and> length s \<le> MAXLINE) \<and>
         (\<forall>s. Rio_writen Client s False \<in> set (events MAXLINE MAXBUF w) \<longrightarrow>
              take 3 (rev (events MAXLINE MAXBUF w)) =
                [Parser_free, Close Server, Rio_writen Client s False])"
proof -
  let ?ls = "(''GET '' @ path @ '' HTTP/1.0'' @ CRLF) # injected host port @
             forwarded (tl (client_lines w)) @ [CRLF]"
  have ok: "relay_ok ?ls (write_ok w Server)"
    using assms(6) by (rule relay_ok_all)
  have pos: "0 < MAXLINE"
    using assms(4) by simp
  have ev: "events MAXLINE MAXBUF w =
              [Parser_new, Open_clientfd host port True] @ relay_events ?ls (write_ok w Server) @
              loop_events MAXLINE w @
              (if fst (response_loop MAXLINE w) then [Close Server, Parser_free] else [])"
    using ok by (simp add: events_get [OF assms(1-5)])
  have d: "delivered Client (events MAXLINE MAXBUF w) = delivered Client (loop_events MAXLINE w)"
    by (simp add: ev)
  have wr: "writes Client (events MAXLINE MAXBUF w) = writes Client (loop_events MAXLINE w)"
    by (simp add: ev writes_relay_client)
  have a: "prefix (delivered Client (events MAXLINE MAXBUF w)) (server_bytes w)"
    by (simp only: d loop_delivered_prefix)
  have b: "delivered Client (events MAXLINE MAXBUF w) = server_bytes w"
    if "(\<forall>ok\<in>set (write_ok w Client). ok) \<and> \<not> server_fatal w"
    using that pos by (simp only: d) (rule loop_delivered_all, auto)
  have c: "\<forall>s\<in>set (writes Client (events MAXLINE MAXBUF w)). 0 < length s \<and> length s \<le> MAXLINE"
    by (simp only: wr) (rule loop_client_only(5))
  have e: "take 3 (rev (events MAXLINE MAXBUF w)) =
             [Parser_free, Close Server, Rio_writen Client s False]"
    if "Rio_writen Client s False \<in> set (events MAXLINE MAXBUF w)" for s
  proof -
    from that have "Rio_writen Client s False \<in> set (loop_events MAXLINE w)"
      by (simp add: ev relay_no_client split: if_splits)
    then obtain pre where "fst (response_loop MAXLINE w)"
      and "loop_events MAXLINE w = pre @ [Rio_writen Client s False]"
      using loop_failed_last by blast
    then show ?thesis
      by (simp add: ev)
  qed
  from a b c e show ?thesis
    by blast
qed

theorem response_relayed_witness:
  "request_line (example_world ''GET'' ''http://example.com:8080/a/b'') =
     Some (''GET'', ''http://example.com:8080/a/b'', ''HTTP/1.1'') \<and>
   processUri 8192 ''http://example.com:8080/a/b'' = Some (''/a/b'', ''example.com'', ''8080'') \<and>
   delivered Client (events 8192 8192 (example_world ''GET'' ''http://example.com:8080/a/b'')) =
     ''HTTP/1.0 200 OK'' @ CRLF @ CRLF @ ''hello'' \<and>
   take 3 (rev (events 8192 8192
      ((example_world ''GET'' ''http://example.com:8080/a/b'')
         \<lparr>write_ok := (\<lambda>fd. if fd = Client then [False] else [])\<rparr>))) =
     [Parser_free, Close Server, Rio_writen Client (''HTTP/1.0 200 OK'' @ CRLF @ CRLF @ ''hello'') False]"
proof -
  let ?w = "example_world ''GET'' ''http://example.com:8080/a/b''"
  let ?v = "?w\<lparr>write_ok := (\<lambda>fd. if fd = Client then [False] else [])\<rparr>"
  let ?bytes = "''HTTP/1.0 200 OK'' @ CRLF @ CRLF @ ''hello''"
  have h1: "request_line ?w = Some (''GET'', ''http://example.com:8080/a/b'', ''HTTP/1.1'')"
    by (rule example_request_line)
  have h3: "connects ?w ''example.com'' ''8080''"
    by (rule example_connects)
  have h6: "\<forall>ok\<in>set (write_ok ?w Server). ok"
    by (rule example_writes_ok)
  have h7: "(\<forall>ok\<in>set (write_ok ?w Client). ok) \<and> \<not> server_fatal ?w"
    by (simp add: example_world_def)
  have "delivered Client (events 8192 8192 ?w) = server_bytes ?w"
    using response_relayed [OF h1 example_uri1 h3 example_lengths h6, of 8192] h7 by blast
  then have a: "delivered Client (events 8192 8192 ?w) = ?bytes"
    by (simp add: example_world_def)
  have k1: "request_line ?v = Some (''GET'', ''http://example.com:8080/a/b'', ''HTTP/1.1'')"
    by (rule example_request_line_upd)
  have k3: "connects ?v ''example.com'' ''8080''"
    by (simp add: example_connects)
  have k6: "\<forall>ok\<in>set (write_ok ?v Server). ok"
    by simp
  have le: "loop_events 8192 ?v = [Rio_writen Client ?bytes False]"
    by (subst loop_events_unfold) (simp add: example_world_def next_ok_def CRLF_def)
  have "Rio_writen Client ?bytes False \<in> set (events 8192 8192 ?v)"
    by (simp add: events_get [OF k1 example_uri1 k3 example_lengths] le)
  then have b: "take 3 (rev (events 8192 8192 ?v)) =
                  [Parser_free, Close Server, Rio_writen Client ?bytes False]"
    using response_relayed [OF k1 example_uri1 k3 example_lengths k6, of 8192] by blast
  from h1 example_uri1 a b show ?thesis
    by blast
qed


lemma count_list_append [simp]: "count_list (xs @ ys) e = count_list xs e + count_list ys e"
  by (induction xs) auto

lemma released_get:
  assumes "request_line w = Some (''GET'', uri, vers)"
    and "processUri MAXLINE uri = Some (path, host, port)"
    and "connects w host port"
    and "\<not> server_fatal w"
  shows "released (events MAXLINE MAXBUF w)"
proof -
  let ?line = "''GET '' @ path @ '' HTTP/1.0'' @ CRLF"
  let ?hostline = "''Host: '' @ host @ '':'' @ port @ CRLF"
  let ?w3 = "snd (open_clientfd host port (snd (rio_readlineb [] (parser_new w))))"
  let ?ls = "?line # injected host port @ forwarded (tl (client_lines w)) @ [CRLF]"
  have tr: "trace (request MAXLINE MAXBUF w) = trace (forward MAXLINE path host port ?w3)"
    using assms(2,3) by (simp add: request_get [OF assms(1)])
  show ?thesis
  proof (cases "MAXLINE \<le> length ?line")
    case True
    then show ?thesis
      using assms(3) by (simp add: released_def events_def new_events_def tr forward_long_request)
  next
    case fits: False
    show ?thesis
    proof (cases "MAXLINE \<le> length ?hostline")
      case True
      then show ?thesis
        using assms(3) fits
        by (simp add: released_def events_def new_events_def tr forward_long_host)
    next
      case False
      have ev: "events MAXLINE MAXBUF w =
                  [Parser_new, Open_clientfd host port True] @
                  relay_events ?ls (write_ok w Server) @
                  (if relay_ok ?ls (write_ok w Server)
                   then loop_events MAXLINE w @
                        (if fst (response_loop MAXLINE w) then [Close Server, Parser_free] else [])
                   else [Parser_free])"
        using fits False by (intro events_get [OF assms(1-3)]) simp_all
      have ret: "fst (response_loop MAXLINE w)"
        using assms(4) by (rule loop_returns)
      show ?thesis
      proof (cases "relay_ok ?ls (write_ok w Server)")
        case True
        then show ?thesis
          using ret
          by (simp only: ev released_def)
             (simp add: count_relay_close loop_client_only(2,3))
      next
        case False
        then obtain pre where pre: "relay_events ?ls (write_ok w Server) = pre @ [Close Server]"
          using relay_fail_last by blast
        have c: "count_list (relay_events ?ls (write_ok w Server)) (Close Server) = 1"
          using False by (simp only: count_relay_close if_False)
        have "count_list (events MAXLINE MAXBUF w) (Close Server) = 1"
          using False c by (simp only: ev) simp
        moreover have "count_list (events MAXLINE MAXBUF w) Parser_free = 1"
          using False by (simp only: ev) simp
        moreover have "take 2 (rev (events MAXLINE MAXBUF w)) = [Parser_free, Close Server]"
          using False by (simp only: ev pre) simp
        ultimately show ?thesis
          by (simp only: released_def simp_thms)
      qed
    qed
  qed
qed

text \<open>
  Whenever \<open>open_clientfd\<close> has succeeded during a call of \<open>request\<close> and no read from
  the origin fails, the last two effects of the call are the closing of the origin
  socket and the freeing of the parser, and neither happens at any other point of the
  call: this covers the failed writes to the origin and to the client, the over-long
  request line and \<open>Host\<close> line, and the normal end.
\<close>

lemma released_after_connect:
  assumes "Open_clientfd host port True \<in> set (events MAXLINE MAXBUF w)"
    and "\<not> server_fatal w"
  shows "released (events MAXLINE MAXBUF w)"
proof (cases "request_line w")
  case None
  then have "events MAXLINE MAXBUF w = [Parser_new, Parser_free]"
    using request_line_None [of w MAXLINE MAXBUF] by (simp add: events_def new_events_def)
  then show ?thesis
    using assms(1) by simp
next
  case (Some r)
  then obtain m u v where rl: "request_line w = Some (m, u, v)"
    by (cases r) auto
  show ?thesis
  proof (cases "m = ''GET''")
    case False
    have "Open_clientfd host port True \<notin> set (events MAXLINE MAXBUF w)"
      by (simp add: events_def new_events_def request_other_method [OF rl False] clienterror_trace)
    then show ?thesis
      using assms(1) by simp
  next
    case True
    then have get: "request_line w = Some (''GET'', u, v)"
      using rl by simp
    show ?thesis
    proof (cases "processUri MAXLINE u")
      case None
      then have "events MAXLINE MAXBUF w = [Parser_new, Undefined_behaviour]"
        by (simp add: events_def new_events_def request_get [OF get])
      then show ?thesis
        using assms(1) by simp
    next
      case (Some t)
      then obtain path h p where pu: "processUri MAXLINE u = Some (path, h, p)"
        by (cases t) auto
      show ?thesis
      proof (cases "connects w h p")
        case True
        then show ?thesis
          using assms(2) by (intro released_get [OF get pu])
      next
        case False
        then have "events MAXLINE MAXBUF w = [Parser_new, Open_clientfd h p False, Parser_free]"
          by (simp add: events_def new_events_def request_get [OF get] pu)
        then show ?thesis
          using assms(1) by simp
      qed
    qed
  qed
qed


end
